theory Spec2Isabelle
  imports Main "HOL-Library.Sublist" "HOL-Library.Multiset"
begin

section \<open>JavaScript values and the built-ins the server calls\<close>

text \<open>
  The server (the third revision of \<^verbatim>\<open>server.js\<close>, "UNIVERSAL LLM SUPPORT") is written in
  JavaScript. Its data are strings, the values \<^verbatim>\<open>JSON.parse\<close> produces,
  \<^verbatim>\<open>undefined\<close>, and the members of \<^verbatim>\<open>Object.prototype\<close>, which a plain object
  inherits and a property read finds under their names: \<open>JBuiltin k\<close> is the member
  named \<open>k\<close>, a built-in function or, for \<^verbatim>\<open>__proto__\<close>, the prototype object itself.
  Strings are modelled as lists of 8-bit code units (the Latin-1 part of JavaScript's
  16-bit code units).

  A finite Number \<open>JNum m e\<close> stands for the decimal \<open>m * 10^e\<close> that
  \<^verbatim>\<open>Number::toString\<close> prints for it: the shortest decimal that reads back as the same
  double. \<open>JNum 150 0\<close> is 150, \<open>JNum (-5) (-1)\<close> is -0.5, \<open>JNum 1 21\<close> is 1e21, and
  \<open>m = 0\<close> is zero (of either sign). \<^verbatim>\<open>JSON.parse\<close> yields an infinity for a literal
  beyond the double range.
\<close>

datatype jsval =
    JUndefined
  | JNull
  | JBool bool
  | JNum int int
  | JPosInf
  | JNegInf
  | JStr string
  | JArr "jsval list"
  | JObj "(string \<times> jsval) list"
  | JBuiltin string

text \<open>
  A thrown value. Every value the server throws or catches is an \<^verbatim>\<open>Error\<close> object, and the
  server reads only its \<^verbatim>\<open>message\<close>. The message of an error raised by the engine itself
  (a \<^verbatim>\<open>TypeError\<close>) is engine-defined; the model carries a description in its place.
\<close>

datatype error = Error string | TypeError string | SyntaxError string

fun message :: "error \<Rightarrow> string" where
  "message (Error m) = m"
| "message (TypeError m) = m"
| "message (SyntaxError m) = m"

text \<open>Truthiness (\<^verbatim>\<open>ToBoolean\<close>): what \<^verbatim>\<open>if (x)\<close>, \<^verbatim>\<open>!x\<close> and \<^verbatim>\<open>x || y\<close> test.\<close>

fun truthy :: "jsval \<Rightarrow> bool" where
  "truthy JUndefined = False"
| "truthy JNull = False"
| "truthy (JBool b) = b"
| "truthy (JNum m e) = (m \<noteq> 0)"
| "truthy JPosInf = True"
| "truthy JNegInf = True"
| "truthy (JStr s) = (s \<noteq> [])"
| "truthy (JArr xs) = True"
| "truthy (JObj kvs) = True"
| "truthy (JBuiltin k) = True"

subsection \<open>Number to string\<close>

definition digit_char :: "nat \<Rightarrow> char" where
  "digit_char d = ''0123456789'' ! (d mod 10)"

fun digits :: "nat \<Rightarrow> string" where
  "digits n = (if n < 10 then [digit_char n] else digits (n div 10) @ [digit_char (n mod 10)])"

declare digits.simps [simp del]

text \<open>
  \<^verbatim>\<open>Number::toString\<close> (ECMA-262, radix 10) for a finite number: with \<open>k\<close> significant
  digits \<open>ds\<close> and the decimal point after the \<open>n\<close>-th digit, the number is printed in
  positional notation when \<open>-6 < n \<le> 21\<close> and in exponent notation otherwise.
\<close>

definition num_to_string :: "int \<Rightarrow> int \<Rightarrow> string" where
  "num_to_string m e =
     (if m = 0 then ''0''
      else
        let ds0 = digits (nat \<bar>m\<bar>);
            ds = rev (dropWhile (\<lambda>c. c = CHR ''0'') (rev ds0));
            k = int (length ds);
            n = int (length ds0) + e;
            body =
              (if k \<le> n \<and> n \<le> 21 then ds @ replicate (nat (n - k)) (CHR ''0'')
               else if 0 < n \<and> n \<le> 21 then take (nat n) ds @ ''.'' @ drop (nat n) ds
               else if - 6 < n \<and> n \<le> 0 then ''0.'' @ replicate (nat (- n)) (CHR ''0'') @ ds
               else
                 let es = (if n - 1 < 0 then ''-'' else ''+'') @ digits (nat \<bar>n - 1\<bar>)
                 in if k = 1 then ds @ ''e'' @ es
                    else take 1 ds @ ''.'' @ drop 1 ds @ ''e'' @ es)
        in (if m < 0 then ''-'' else []) @ body)"

subsection \<open>ToString\<close>

fun join :: "string \<Rightarrow> string list \<Rightarrow> string" where
  "join sep [] = []"
| "join sep [x] = x"
| "join sep (x # y # ys) = x @ sep @ join sep (y # ys)"

fun sequence :: "(error + 'a) list \<Rightarrow> error + 'a list" where
  "sequence [] = Inr []"
| "sequence (Inl e # rs) = Inl e"
| "sequence (Inr x # rs) = (case sequence rs of Inl e \<Rightarrow> Inl e | Inr xs \<Rightarrow> Inr (x # xs))"

text \<open>
  \<^verbatim>\<open>ToString\<close> of a value. An array prints its elements joined by commas, \<^verbatim>\<open>null\<close> and
  \<^verbatim>\<open>undefined\<close> elements as the empty string. A plain object prints as
  \<^verbatim>\<open>[object Object]\<close> through \<^verbatim>\<open>Object.prototype.toString\<close>; when the object has a
  property \<^verbatim>\<open>toString\<close> of its own (a JSON value, so not callable) the conversion finds no
  method that returns a primitive and throws a \<^verbatim>\<open>TypeError\<close>. A built-in function
  prints as its source text, which for a native function is engine-defined; the text
  below is the one V8 gives.
\<close>

fun ToString :: "jsval \<Rightarrow> error + string" where
  "ToString JUndefined = Inr ''undefined''"
| "ToString JNull = Inr ''null''"
| "ToString (JBool b) = Inr (if b then ''true'' else ''false'')"
| "ToString (JNum m e) = Inr (num_to_string m e)"
| "ToString JPosInf = Inr ''Infinity''"
| "ToString JNegInf = Inr ''-Infinity''"
| "ToString (JStr s) = Inr s"
| "ToString (JArr xs) =
     (case sequence (map (\<lambda>x. if x = JUndefined \<or> x = JNull then Inr [] else ToString x) xs) of
        Inl e \<Rightarrow> Inl e
      | Inr strs \<Rightarrow> Inr (join '','' strs))"
| "ToString (JObj kvs) =
     (if ''toString'' \<in> fst ` set kvs
      then Inl (TypeError ''Cannot convert object to primitive value'')
      else Inr ''[object Object]'')"
| "ToString (JBuiltin k) =
     Inr (if k = ''__proto__'' then ''[object Object]''
          else ''function '' @ (if k = ''constructor'' then ''Object'' else k) @
               ''() { [native code] }'')"

subsection \<open>parseInt\<close>

definition StrWhiteSpaceChar :: "char \<Rightarrow> bool" where
  "StrWhiteSpaceChar c = (of_char c \<in> {9, 10, 11, 12, 13, 32, 160 :: nat})"

definition digit_value :: "char \<Rightarrow> nat option" where
  "digit_value c =
     (let n = (of_char c :: nat) in
      if 48 \<le> n \<and> n \<le> 57 then Some (n - 48)
      else if 97 \<le> n \<and> n \<le> 122 then Some (n - 87)
      else if 65 \<le> n \<and> n \<le> 90 then Some (n - 55)
      else None)"

definition is_radix_digit :: "nat \<Rightarrow> char \<Rightarrow> bool" where
  "is_radix_digit R c = (case digit_value c of None \<Rightarrow> False | Some d \<Rightarrow> d < R)"

definition radix_value :: "nat \<Rightarrow> string \<Rightarrow> nat" where
  "radix_value R Z = foldl (\<lambda>a c. a * R + (case digit_value c of None \<Rightarrow> 0 | Some d \<Rightarrow> d)) 0 Z"

text \<open>
  \<^verbatim>\<open>parseInt(string)\<close> with no radix (ECMA-262), on the string its argument converts to:
  leading white space is skipped, a sign is read, a \<^verbatim>\<open>0x\<close> prefix selects radix 16, and the
  longest prefix of digits is the value; no digit gives \<^verbatim>\<open>NaN\<close>, here \<open>None\<close>. The result
  is kept as the mathematical integer: JavaScript rounds it to a double (and gives -0 for a
  negative sign on zero), which changes neither whether it is zero nor its minimum with 100
  or maximum with 0, the only uses the server makes of it.
\<close>

definition parseInt_string :: "string \<Rightarrow> int option" where
  "parseInt_string inputString =
     (let S = dropWhile StrWhiteSpaceChar inputString;
          sign = (if S \<noteq> [] \<and> hd S = CHR ''-'' then - 1 else 1 :: int);
          S1 = (if S \<noteq> [] \<and> (hd S = CHR ''+'' \<or> hd S = CHR ''-'') then tl S else S);
          hex = (take 2 S1 = ''0x'' \<or> take 2 S1 = ''0X'');
          R = (if hex then 16 else 10);
          S2 = (if hex then drop 2 S1 else S1);
          Z = takeWhile (is_radix_digit R) S2
      in if Z = [] then None else Some (sign * int (radix_value R Z)))"

definition parseInt :: "jsval \<Rightarrow> error + int option" where
  "parseInt v = (case ToString v of Inl e \<Rightarrow> Inl e | Inr s \<Rightarrow> Inr (parseInt_string s))"

text \<open>
  A nonzero number \<open>m * 10^e\<close> of magnitude below 1 that is printed in positional notation
  (magnitude at least \<open>10^-6\<close>), such as 0.4.
\<close>

definition small_fraction :: "int \<Rightarrow> int \<Rightarrow> bool" where
  "small_fraction m e =
     (m \<noteq> 0 \<and> - 6 < int (length (digits (nat \<bar>m\<bar>))) + e \<and>
      int (length (digits (nat \<bar>m\<bar>))) + e \<le> 0)"

section \<open>Regular expressions\<close>

text \<open>
  The server's patterns are JavaScript regular expressions. They are embedded as terms of
  the datatype below and run by a backtracking matcher that follows ECMA-262: alternatives
  are tried left to right, quantifiers are greedy, and an iteration of \<^verbatim>\<open>*\<close> or
  \<^verbatim>\<open>?\<close> that consumes nothing is rejected. Every parenthesis of the source is a capture
  group, numbered by its opening parenthesis.
\<close>

datatype regex =
    Eps
  | Cls "char \<Rightarrow> bool"
  | Seq regex regex
  | Alt regex regex
  | Opt regex
  | Star regex
  | Group nat regex
  | Eol

type_synonym captures = "(nat \<times> string) list"

type_synonym mstate = "captures \<times> string"

fun groups :: "regex \<Rightarrow> nat list" where
  "groups Eps = []"
| "groups (Cls p) = []"
| "groups (Seq a b) = groups a @ groups b"
| "groups (Alt a b) = groups a @ groups b"
| "groups (Opt a) = groups a"
| "groups (Star a) = groups a"
| "groups (Group i a) = i # groups a"
| "groups Eol = []"

definition clear :: "nat list \<Rightarrow> mstate \<Rightarrow> mstate" where
  "clear gs st = (filter (\<lambda>(i, w). i \<notin> set gs) (fst st), snd st)"

definition progress :: "mstate \<Rightarrow> mstate \<Rightarrow> bool" where
  "progress st st' = (length (snd st') < length (snd st))"

text \<open>
  The greedy loop of \<^verbatim>\<open>*\<close> over the matcher \<open>f\<close> of its body. Each iteration consumes at
  least one code unit, so the length of the input bounds the number of iterations.
\<close>

fun star_aux :: "(mstate \<Rightarrow> mstate list) \<Rightarrow> nat \<Rightarrow> mstate \<Rightarrow> mstate list" where
  "star_aux f 0 st = [st]"
| "star_aux f (Suc n) st =
     concat (map (\<lambda>st'. if progress st st' then star_aux f n st' else []) (f st)) @ [st]"

text \<open>
  \<open>matcher r (caps, s)\<close> lists, in the order backtracking tries them, the states reached
  by matching \<open>r\<close> at the front of \<open>s\<close>: the captures and the input left.
\<close>

fun matcher :: "regex \<Rightarrow> mstate \<Rightarrow> mstate list" where
  "matcher Eps st = [st]"
| "matcher (Cls p) st =
     (case snd st of [] \<Rightarrow> [] | x # xs \<Rightarrow> if p x then [(fst st, xs)] else [])"
| "matcher (Seq a b) st = concat (map (matcher b) (matcher a st))"
| "matcher (Alt a b) st = matcher a st @ matcher b st"
| "matcher (Opt a) st = filter (progress st) (matcher a (clear (groups a) st)) @ [st]"
| "matcher (Star a) st =
     star_aux (\<lambda>st'. matcher a (clear (groups a) st')) (length (snd st)) st"
| "matcher (Group i a) st =
     map (\<lambda>st'. ((i, take (length (snd st) - length (snd st')) (snd st)) # fst st', snd st'))
       (matcher a st)"
| "matcher Eol st = (if snd st = [] then [st] else [])"

text \<open>Derived forms: a literal, \<^verbatim>\<open>r+\<close>, \<^verbatim>\<open>r{n}\<close> and \<^verbatim>\<open>r{n,}\<close>.\<close>

definition Chr :: "char \<Rightarrow> regex" where
  "Chr c = Cls (\<lambda>x. x = c)"

fun Lit :: "string \<Rightarrow> regex" where
  "Lit [] = Eps"
| "Lit [c] = Chr c"
| "Lit (c # cs) = Seq (Chr c) (Lit cs)"

definition Plus :: "regex \<Rightarrow> regex" where
  "Plus r = Seq r (Star r)"

fun Times :: "nat \<Rightarrow> regex \<Rightarrow> regex" where
  "Times 0 r = Eps"
| "Times (Suc 0) r = r"
| "Times (Suc n) r = Seq r (Times n r)"

definition AtLeast :: "nat \<Rightarrow> regex \<Rightarrow> regex" where
  "AtLeast n r = Seq (Times n r) (Star r)"

text \<open>
  One match attempt: the first state the matcher reaches, as the matched text and the
  captures. \<open>regex_exec\<close> is \<^verbatim>\<open>RegExp.prototype.exec\<close> from index 0 for a pattern with no
  flag: the leftmost index where an attempt succeeds. It returns that index, the matched
  text (\<^verbatim>\<open>match[0]\<close>) and the captures. A pattern that begins with \<^verbatim>\<open>^\<close> is attempted
  at index 0 only (\<open>regex_exec_anchored\<close>).
\<close>

definition match_here :: "regex \<Rightarrow> string \<Rightarrow> (string \<times> captures) option" where
  "match_here r s =
     (case matcher r ([], s) of
        [] \<Rightarrow> None
      | st # _ \<Rightarrow> Some (take (length s - length (snd st)) s, fst st))"

fun regex_exec :: "regex \<Rightarrow> string \<Rightarrow> (nat \<times> string \<times> captures) option" where
  "regex_exec r [] = (case match_here r [] of None \<Rightarrow> None | Some (w, c) \<Rightarrow> Some (0, w, c))"
| "regex_exec r (x # xs) =
     (case match_here r (x # xs) of
        Some (w, c) \<Rightarrow> Some (0, w, c)
      | None \<Rightarrow> (case regex_exec r xs of None \<Rightarrow> None | Some (i, w, c) \<Rightarrow> Some (Suc i, w, c)))"

definition regex_exec_anchored :: "regex \<Rightarrow> string \<Rightarrow> (nat \<times> string \<times> captures) option" where
  "regex_exec_anchored r s =
     (case match_here r s of None \<Rightarrow> None | Some (w, c) \<Rightarrow> Some (0, w, c))"

definition regex_test :: "regex \<Rightarrow> string \<Rightarrow> bool" where
  "regex_test r s = (regex_exec r s \<noteq> None)"

definition regex_test_anchored :: "regex \<Rightarrow> string \<Rightarrow> bool" where
  "regex_test_anchored r s = (regex_exec_anchored r s \<noteq> None)"

text \<open>
  \<^verbatim>\<open>String.prototype.match\<close> with a pattern without the \<^verbatim>\<open>g\<close> flag is \<open>regex_exec\<close>.
  With the \<^verbatim>\<open>g\<close> flag it returns all successive matches, or \<^verbatim>\<open>null\<close> (here \<open>None\<close>) when
  there is none; after an empty match the search resumes one code unit further. None of
  the patterns used with \<^verbatim>\<open>g\<close> looks behind its start, so the search may resume on the
  rest of the text.
\<close>

function match_all :: "regex \<Rightarrow> string \<Rightarrow> string list" where
  "match_all r s =
     (case regex_exec r s of
        None \<Rightarrow> []
      | Some (i, w, c) \<Rightarrow>
          w # (if length s < i + max 1 (length w) then []
               else match_all r (drop (i + max 1 (length w)) s)))"
  by pat_completeness auto
termination
  by (relation "measure (\<lambda>(r, s). length s)") auto

declare match_all.simps [simp del]

definition match_g :: "regex \<Rightarrow> string \<Rightarrow> string list option" where
  "match_g r s = (case match_all r s of [] \<Rightarrow> None | ms \<Rightarrow> Some ms)"

text \<open>
  Two devices for the proofs. \<open>ends_in P r\<close> is a syntactic condition under which every
  match of \<open>r\<close> ends in a code unit that satisfies \<open>P\<close>; \<open>after_brace\<close> lists the states
  reached after a closing brace, over the suffixes of the input.
\<close>

fun ends_in :: "(char \<Rightarrow> bool) \<Rightarrow> regex \<Rightarrow> bool" where
  "ends_in P (Cls q) = (\<forall>c. q c \<longrightarrow> P c)"
| "ends_in P (Seq a b) = ends_in P b"
| "ends_in P (Alt a b) = (ends_in P a \<and> ends_in P b)"
| "ends_in P (Group i a) = ends_in P a"
| "ends_in P Eps = False"
| "ends_in P (Opt a) = False"
| "ends_in P (Star a) = False"
| "ends_in P Eol = False"

definition after_brace :: "captures \<Rightarrow> string \<Rightarrow> mstate list" where
  "after_brace c xs = concat (map (matcher (Chr CHR ''}'')) (map (Pair c) (suffixes xs)))"

subsection \<open>Character classes and string methods\<close>

definition code :: "char \<Rightarrow> nat" where
  "code c = of_char c"

definition is_digit :: "char \<Rightarrow> bool" where
  "is_digit c = (48 \<le> code c \<and> code c \<le> 57)"

definition is_upper :: "char \<Rightarrow> bool" where
  "is_upper c = (65 \<le> code c \<and> code c \<le> 90)"

definition is_lower :: "char \<Rightarrow> bool" where
  "is_lower c = (97 \<le> code c \<and> code c \<le> 122)"

definition is_alnum :: "char \<Rightarrow> bool" where
  "is_alnum c = (is_lower c \<or> is_upper c \<or> is_digit c)"

definition is_word :: "char \<Rightarrow> bool" where
  "is_word c = (is_alnum c \<or> c = CHR ''_'')"

definition is_space :: "char \<Rightarrow> bool" where
  "is_space c = StrWhiteSpaceChar c"

definition between :: "nat \<Rightarrow> nat \<Rightarrow> char \<Rightarrow> bool" where
  "between lo hi c = (lo \<le> code c \<and> code c \<le> hi)"

text \<open>
  \<^verbatim>\<open>toLowerCase\<close> on a code unit below 256, and \<^verbatim>\<open>toUpperCase\<close> on the word characters
  it is applied to.
\<close>

definition toLowerCase_char :: "char \<Rightarrow> char" where
  "toLowerCase_char c =
     (if is_upper c \<or> (192 \<le> code c \<and> code c \<le> 222 \<and> code c \<noteq> 215)
      then char_of (code c + 32) else c)"

definition toUpperCase_char :: "char \<Rightarrow> char" where
  "toUpperCase_char c = (if is_lower c then char_of (code c - 32) else c)"

definition toLowerCase :: "string \<Rightarrow> string" where
  "toLowerCase s = map toLowerCase_char s"

definition trim :: "string \<Rightarrow> string" where
  "trim s = rev (dropWhile StrWhiteSpaceChar (rev (dropWhile StrWhiteSpaceChar s)))"

fun split :: "char \<Rightarrow> string \<Rightarrow> string list" where
  "split sep [] = [[]]"
| "split sep (x # xs) =
     (if x = sep then [] # split sep xs
      else (case split sep xs of [] \<Rightarrow> [[x]] | l # ls \<Rightarrow> (x # l) # ls))"

definition str_includes :: "string \<Rightarrow> string \<Rightarrow> bool" where
  "str_includes s w = list_ex (prefix w) (suffixes s)"

definition startsWith :: "string \<Rightarrow> string \<Rightarrow> bool" where
  "startsWith s w = prefix w s"

section \<open>The server\<close>

subsection \<open>Configuration, environment and state\<close>

datatype provider = ANTHROPIC | OPENAI | PERPLEXITY | DEEPSEEK | GROQ | OLLAMA | CUSTOM | UNKNOWN

definition detectProvider :: "string \<Rightarrow> provider" where
  "detectProvider base_url =
     (if base_url = [] then UNKNOWN
      else if str_includes base_url ''anthropic'' then ANTHROPIC
      else if str_includes base_url ''openai'' then OPENAI
      else if str_includes base_url ''perplexity'' then PERPLEXITY
      else if str_includes base_url ''deepseek'' then DEEPSEEK
      else if str_includes base_url ''groq'' then GROQ
      else if str_includes base_url ''localhost'' \<or> str_includes base_url ''127.0.0.1'' then OLLAMA
      else CUSTOM)"

text \<open>
  What the server receives from outside is an input of the model. A \<open>response\<close> is what
  \<^verbatim>\<open>fetch\<close> resolves to: its \<^verbatim>\<open>ok\<close> flag and what \<^verbatim>\<open>response.json()\<close> resolves to
  or rejects with. The environment gives the configured endpoint, the text
  \<^verbatim>\<open>pdf-parse\<close> extracts from a buffer (or the error it rejects with), the result of
  \<^verbatim>\<open>JSON.parse\<close> on a text that begins with a brace (the properties of the object, or the
  error thrown), and the outcome of each external call by its position in the run. Every
  external call is taken to settle: it resolves or rejects.
\<close>

record response =
  ok :: bool
  json :: "error + jsval"

record env =
  BASE_URL :: string
  pdfParse :: "string \<Rightarrow> error + string"
  JSON_parse :: "string \<Rightarrow> error + (string \<times> jsval) list"
  fetch :: "nat \<Rightarrow> error + response"

definition PROVIDER :: "env \<Rightarrow> provider" where
  "PROVIDER env = detectProvider (BASE_URL env)"

text \<open>
  The process-wide state: the name cache, and the external calls made so far. A
  \<open>NameRequest\<close> carries the text prefix sent for name extraction, a \<open>ScoreRequest\<close> the
  resume and job-description texts sent for scoring; the rest of the request body (model,
  prompts, provider-specific headers) is constant. The cache \<^verbatim>\<open>nameCache\<close> is a plain
  object (\<^verbatim>\<open>const nameCache = {}\<close>); the field \<open>nameCache\<close> holds its own properties.
\<close>

datatype request = NameRequest string | ScoreRequest string string

datatype event = PdfParse string | Fetch request

record state =
  nameCache :: "string \<rightharpoonup> jsval"
  log :: "event list"

definition tbind :: "error + 'a \<Rightarrow> ('a \<Rightarrow> error + 'b) \<Rightarrow> error + 'b" where
  "tbind x f = (case x of Inl e \<Rightarrow> Inl e | Inr v \<Rightarrow> f v)"

subsection \<open>Property access\<close>

definition own_prop :: "(string \<times> jsval) list \<Rightarrow> string \<Rightarrow> jsval" where
  "own_prop kvs k = (case map_of kvs k of None \<Rightarrow> JUndefined | Some v \<Rightarrow> v)"

text \<open>
  \<open>get_prop v k\<close> is \<^verbatim>\<open>v.k\<close> for a property name \<open>k\<close> that no prototype defines (every
  name the server reads is such), and \<open>index0 v\<close> is \<^verbatim>\<open>v[0]\<close>. Reading a property of
  \<^verbatim>\<open>undefined\<close> or \<^verbatim>\<open>null\<close> throws.
\<close>

fun get_prop :: "jsval \<Rightarrow> string \<Rightarrow> error + jsval" where
  "get_prop JUndefined k = Inl (TypeError (''Cannot read properties of undefined (reading '' @ k @ '')''))"
| "get_prop JNull k = Inl (TypeError (''Cannot read properties of null (reading '' @ k @ '')''))"
| "get_prop (JObj kvs) k = Inr (own_prop kvs k)"
| "get_prop v k = Inr JUndefined"

fun index0 :: "jsval \<Rightarrow> error + jsval" where
  "index0 JUndefined = Inl (TypeError ''Cannot read properties of undefined (reading 0)'')"
| "index0 JNull = Inl (TypeError ''Cannot read properties of null (reading 0)'')"
| "index0 (JObj kvs) = Inr (own_prop kvs ''0'')"
| "index0 (JArr xs) = Inr (case xs of [] \<Rightarrow> JUndefined | x # _ \<Rightarrow> x)"
| "index0 (JStr s) = Inr (case s of [] \<Rightarrow> JUndefined | c # _ \<Rightarrow> JStr [c])"
| "index0 v = Inr JUndefined"

text \<open>\<^verbatim>\<open>content.match(...)\<close>: only a string has the method.\<close>

fun match_receiver :: "jsval \<Rightarrow> error + string" where
  "match_receiver (JStr s) = Inr s"
| "match_receiver v = Inl (TypeError ''content.match is not a function'')"

subsection \<open>Rate-limited fetch, as its caller sees it\<close>

text \<open>
  \<^verbatim>\<open>rateLimitedFetch\<close> queues the request; the queue runs it and settles the caller's promise
  with the outcome of \<^verbatim>\<open>fetch\<close>. The queue itself is modelled further down.
\<close>

definition rateLimitedFetch :: "env \<Rightarrow> request \<Rightarrow> state \<Rightarrow> (error + response) \<times> state" where
  "rateLimitedFetch env req st = (fetch env (length (log st)), st\<lparr>log := log st @ [Fetch req]\<rparr>)"

subsection \<open>Helpers\<close>

definition truncate_text :: "string \<Rightarrow> string" where
  "truncate_text text = (if length text > 2000 then take 2000 text else text)"

definition json_regex :: regex where
  "json_regex = Seq (Chr CHR ''{'') (Seq (Star (Cls (\<lambda>c. True))) (Chr CHR ''}''))"

definition extractJSON :: "env \<Rightarrow> string \<Rightarrow> error + (string \<times> jsval) list" where
  "extractJSON env text =
     (case regex_exec json_regex text of
        None \<Rightarrow> Inl (Error ''LLM did not return valid JSON'')
      | Some (i, m, caps) \<Rightarrow> JSON_parse env m)"

text \<open>
  Two readings of which part of a reply is handed to \<^verbatim>\<open>JSON.parse\<close>. \<open>brace_span\<close> is the
  text from the first opening brace to the last closing brace after it. \<open>first_balanced\<close>
  follows the specification's words: the text from the first opening brace to the closing
  brace that balances it.
\<close>

definition brace_span :: "string \<Rightarrow> string option" where
  "brace_span text =
     (case dropWhile (\<lambda>c. c \<noteq> CHR ''{'') text of
        [] \<Rightarrow> None
      | b # rest \<Rightarrow>
          if CHR ''}'' \<in> set rest
          then Some (b # rev (dropWhile (\<lambda>c. c \<noteq> CHR ''}'') (rev rest)))
          else None)"

fun balanced_prefix :: "nat \<Rightarrow> string \<Rightarrow> string option" where
  "balanced_prefix depth [] = None"
| "balanced_prefix depth (x # xs) =
     (if x = CHR ''}'' \<and> depth = 0 then Some [x]
      else map_option (\<lambda>r. x # r)
             (balanced_prefix
               (if x = CHR ''{'' then Suc depth else if x = CHR ''}'' then depth - 1 else depth) xs))"

definition first_balanced :: "string \<Rightarrow> string option" where
  "first_balanced text =
     (case dropWhile (\<lambda>c. c \<noteq> CHR ''{'') text of
        [] \<Rightarrow> None
      | b # rest \<Rightarrow> map_option (\<lambda>r. b # r) (balanced_prefix 0 rest))"

definition response_content :: "provider \<Rightarrow> jsval \<Rightarrow> error + jsval" where
  "response_content p data =
     (if p = ANTHROPIC
      then tbind (get_prop data ''content'') (\<lambda>c. tbind (index0 c) (\<lambda>b. get_prop b ''text''))
      else tbind (get_prop data ''choices'') (\<lambda>c. tbind (index0 c) (\<lambda>b.
             tbind (get_prop b ''message'') (\<lambda>m. get_prop m ''content''))))"

subsection \<open>Scoring\<close>

record llm_result =
  llm_match_score :: int
  llm_fields :: "(string \<times> jsval) list"

text \<open>
  \<^verbatim>\<open>Math.max(0, Math.min(100, parseInt(result.match_score) || 50))\<close>: \<^verbatim>\<open>NaN\<close> and zero are
  falsy, so either is replaced by 50.
\<close>

definition or50 :: "int option \<Rightarrow> int" where
  "or50 p = (case p of None \<Rightarrow> 50 | Some n \<Rightarrow> if n = 0 then 50 else n)"

text \<open>
  For comparison with the code, clamping as the specification words it: the bound of the
  range 0 to 100 nearest to a number \<open>m * 10^e\<close> that lies outside the range.
\<close>

definition spec_nearest_bound :: "int \<Rightarrow> int \<Rightarrow> int option" where
  "spec_nearest_bound m e =
     (if m < 0 then Some 0
      else if (if 0 \<le> e then 100 < m * 10 ^ nat e else 100 * 10 ^ nat (- e) < m) then Some 100
      else None)"

definition scoreResumeWithLLM ::
    "env \<Rightarrow> string \<Rightarrow> string \<Rightarrow> state \<Rightarrow> (error + llm_result) \<times> state" where
  "scoreResumeWithLLM env resumeText jdText st =
     (let (r, st') = rateLimitedFetch env (ScoreRequest resumeText jdText) st
      in (tbind r (\<lambda>response.
            if \<not> ok response then
              tbind (json response) (\<lambda>err.
              tbind (get_prop err ''error'') (\<lambda>e.
              tbind (if e = JUndefined \<or> e = JNull then Inr JUndefined else get_prop e ''message'') (\<lambda>msg.
                if truthy msg then tbind (ToString msg) (\<lambda>s. Inl (Error s))
                else Inl (Error ''LLM request failed''))))
            else
              tbind (json response) (\<lambda>data.
              tbind (response_content (PROVIDER env) data) (\<lambda>content.
              tbind (match_receiver content) (\<lambda>text.
              tbind (extractJSON env text) (\<lambda>result.
              tbind (parseInt (own_prop result ''match_score'')) (\<lambda>p.
                Inr \<lparr>llm_match_score = max 0 (min 100 (or50 p)), llm_fields = result\<rparr>)))))),
          st'))"

subsection \<open>Name extraction by the model, with the cache\<close>

text \<open>
  The names of the members of \<^verbatim>\<open>Object.prototype\<close>. \<open>nameCache_get st k\<close> is the read
  \<^verbatim>\<open>nameCache[cacheKey]\<close>: the own property of that name, else the member the object
  inherits under that name, else \<^verbatim>\<open>undefined\<close>. \<open>cached st k\<close> is the value the guard
  \<^verbatim>\<open>if (nameCache[cacheKey])\<close> lets through. The write \<^verbatim>\<open>nameCache[cacheKey] = name\<close> is
  reached only after that guard has failed, so never for an inherited name, and creates or
  replaces an own property.
\<close>

definition Object_prototype :: "string list" where
  "Object_prototype =
     [''constructor'', ''__defineGetter__'', ''__defineSetter__'', ''hasOwnProperty'',
      ''__lookupGetter__'', ''__lookupSetter__'', ''isPrototypeOf'', ''propertyIsEnumerable'',
      ''toString'', ''valueOf'', ''__proto__'', ''toLocaleString'']"

definition nameCache_get :: "state \<Rightarrow> string \<Rightarrow> jsval" where
  "nameCache_get st k =
     (case nameCache st k of
        Some v \<Rightarrow> v
      | None \<Rightarrow> if k \<in> set Object_prototype then JBuiltin k else JUndefined)"

definition cached :: "state \<Rightarrow> string \<Rightarrow> jsval option" where
  "cached st k = (if truthy (nameCache_get st k) then Some (nameCache_get st k) else None)"

text \<open>
  The body of the \<^verbatim>\<open>try\<close> block after the request, up to the value of \<^verbatim>\<open>name\<close>; a reply
  with no braces leaves the block and the function returns \<^verbatim>\<open>null\<close>.
\<close>

definition name_of_reply :: "env \<Rightarrow> error + response \<Rightarrow> error + jsval" where
  "name_of_reply env r =
     tbind r (\<lambda>response.
       if \<not> ok response then tbind (json response) (\<lambda>err. Inr JNull)
       else
         tbind (json response) (\<lambda>data.
         tbind (response_content (PROVIDER env) data) (\<lambda>content.
         tbind (match_receiver content) (\<lambda>text.
           case regex_exec json_regex text of
             None \<Rightarrow> Inr JNull
           | Some (i, m, caps) \<Rightarrow>
               tbind (JSON_parse env m) (\<lambda>result.
                 Inr (if own_prop result ''name'' \<noteq> JStr ''Unknown''
                      then own_prop result ''name'' else JNull))))))"

definition extractNameWithLLM :: "env \<Rightarrow> string \<Rightarrow> string \<Rightarrow> state \<Rightarrow> jsval \<times> state" where
  "extractNameWithLLM env text resumeFileName st =
     (case cached st resumeFileName of
        Some v \<Rightarrow> (v, st)
      | None \<Rightarrow>
          (let (r, st') = rateLimitedFetch env (NameRequest (take 800 text)) st
           in case name_of_reply env r of
                Inl e \<Rightarrow> (JNull, st')
              | Inr name \<Rightarrow>
                  (name,
                   if truthy name then st'\<lparr>nameCache := (nameCache st')(resumeFileName \<mapsto> name)\<rparr>
                   else st')))"

subsection \<open>The patterns\<close>

fun Seqs :: "regex list \<Rightarrow> regex" where
  "Seqs [] = Eps"
| "Seqs [r] = r"
| "Seqs (r # rs) = Seq r (Seqs rs)"

text \<open>
  Under the \<^verbatim>\<open>i\<close> flag a pattern character matches a code unit with the same upper case;
  a code unit from 128 on never matches an ASCII pattern character.
\<close>

definition ChrI :: "char \<Rightarrow> regex" where
  "ChrI c = Cls (\<lambda>x. toUpperCase_char x = toUpperCase_char c)"

definition LitI :: "string \<Rightarrow> regex" where
  "LitI s = Seqs (map ChrI s)"

definition digit :: regex where
  "digit = Cls is_digit"

definition space_or_dash :: regex where
  "space_or_dash = Cls (\<lambda>c. is_space c \<or> c = CHR ''-'')"

text \<open>\<^verbatim>\<open>/[a-zA-Z0-9._%+-]+@[a-zA-Z0-9.-]+\.[a-z]{2,}/g\<close>\<close>

definition emailRegex :: regex where
  "emailRegex =
     Seqs [Plus (Cls (\<lambda>c. is_alnum c \<or> c \<in> set ''._%+-'')),
           Chr CHR ''@'',
           Plus (Cls (\<lambda>c. is_alnum c \<or> c \<in> set ''.-'')),
           Chr CHR ''.'',
           AtLeast 2 (Cls is_lower)]"

text \<open>
  \<^verbatim>\<open>/(\+?91|0)?[\s-]?[6-9]\d{2}[\s-]?\d{3}[\s-]?\d{4}|(\+1[\s-]?)?(\(\d{3}\)|[\s-]?\d{3})[\s-]?\d{3}[\s-]?\d{4}/g\<close>
\<close>

definition phoneRegex :: regex where
  "phoneRegex =
     Alt
       (Seqs [Opt (Group 1 (Alt (Seq (Opt (Chr CHR ''+'')) (Lit ''91'')) (Chr CHR ''0''))),
              Opt space_or_dash,
              Cls (between 54 57), Times 2 digit,
              Opt space_or_dash, Times 3 digit,
              Opt space_or_dash, Times 4 digit])
       (Seqs [Opt (Group 2 (Seq (Lit ''+1'') (Opt space_or_dash))),
              Group 3 (Alt (Seqs [Chr CHR ''('', Times 3 digit, Chr CHR '')''])
                           (Seq (Opt space_or_dash) (Times 3 digit))),
              Opt space_or_dash, Times 3 digit,
              Opt space_or_dash, Times 4 digit])"

text \<open>\<^verbatim>\<open>/(https?:\/\/)?(www\.)?linkedin\.com\/in\/[a-zA-Z0-9\-_%]+/gi\<close>\<close>

definition linkedinRegex :: regex where
  "linkedinRegex =
     Seqs [Opt (Group 1 (Seqs [LitI ''http'', Opt (ChrI CHR ''s''), LitI ''://''])),
           Opt (Group 2 (LitI ''www.'')),
           LitI ''linkedin.com/in/'',
           Plus (Cls (\<lambda>c. is_alnum c \<or> c \<in> set ''-_%''))]"

subsection \<open>Fallback name extraction\<close>

definition blacklist :: "string list" where
  "blacklist =
     [''engineering'', ''engineer'', ''electronics'', ''communication'',
      ''computer'', ''science'', ''technology'', ''information'',
      ''chennai'', ''bangalore'', ''india'', ''profile'', ''summary'',
      ''resume'', ''curriculum'', ''switzerland'', ''germany'', ''france'',
      ''united states'', ''united kingdom'', ''zurich'', ''embedded'',
      ''developer'', ''manager'', ''intern'', ''internship'', ''student'',
      ''graduate'', ''university'', ''college'', ''systems'', ''administrator'',
      ''private'', ''ltd'', ''inc'', ''company'', ''corp'', ''tech'', ''solutions'',
      ''pvt'', ''llc'', ''gmbh'', ''srl'', ''group'', ''enterprises'']"

text \<open>\<^verbatim>\<open>/[0-9@:/!]/\<close>, \<^verbatim>\<open>/^[A-Z\s]+$/\<close> and
  \<^verbatim>\<open>/^[A-Z][a-z]+([\s\-'][A-Z][a-z]+)*([\s][A-Z])?$/\<close>\<close>

definition symbol_regex :: regex where
  "symbol_regex = Cls (\<lambda>c. is_digit c \<or> c \<in> set ''@:/!'')"

definition allcaps_regex :: regex where
  "allcaps_regex = Seqs [Plus (Cls (\<lambda>c. is_upper c \<or> is_space c)), Eol]"

definition name_regex :: regex where
  "name_regex =
     Seqs [Cls is_upper, Plus (Cls is_lower),
           Star (Group 1 (Seqs [Cls (\<lambda>c. is_space c \<or> c = CHR ''-'' \<or> c = CHR 0x27),
                                Cls is_upper, Plus (Cls is_lower)])),
           Opt (Group 2 (Seqs [Cls is_space, Cls is_upper])),
           Eol]"

text \<open>
  \<^verbatim>\<open>s.replace(/\b\w/g, c => c.toUpperCase())\<close>: a word character is put in upper case
  when no word character stands before it.
\<close>

fun capitalize_words :: "bool \<Rightarrow> string \<Rightarrow> string" where
  "capitalize_words after_word [] = []"
| "capitalize_words after_word (x # xs) =
     (if is_word x \<and> \<not> after_word then toUpperCase_char x else x) # capitalize_words (is_word x) xs"

text \<open>The body of the loop over the lines: \<open>None\<close> is \<^verbatim>\<open>continue\<close>.\<close>

definition name_of_line :: "string \<Rightarrow> string option" where
  "name_of_line line =
     (let lower = toLowerCase line in
      if list_ex (\<lambda>word. str_includes lower word) blacklist then None
      else if regex_test symbol_regex line then None
      else
        let normalized =
              (if regex_test_anchored allcaps_regex line
               then capitalize_words False (toLowerCase line) else line)
        in if regex_test_anchored name_regex normalized then Some normalized else None)"

fun first_some :: "('a \<Rightarrow> 'b option) \<Rightarrow> 'a list \<Rightarrow> 'b option" where
  "first_some f [] = None"
| "first_some f (x # xs) = (case f x of Some y \<Rightarrow> Some y | None \<Rightarrow> first_some f xs)"

definition extractNameRegex :: "string \<Rightarrow> string option" where
  "extractNameRegex text =
     (let lines = filter (\<lambda>l. length l > 0 \<and> length l < 60) (map trim (split (CHR 0x0A) text))
      in first_some name_of_line (take 20 lines))"

subsection \<open>Phone extraction\<close>

text \<open>The unset sentinel, an em dash.\<close>

definition UNSET :: string where
  "UNSET = [CHR 0xE2, CHR 0x80, CHR 0x94]"

text \<open>\<^verbatim>\<open>/(\+91[\s]?)?([6-9]\d{9})/\<close> and \<^verbatim>\<open>/\(91\)[\s]?([6-9]\d{4})[\s-]?(\d{5})/\<close>\<close>

definition phone_fallback1 :: regex where
  "phone_fallback1 =
     Seqs [Opt (Group 1 (Seq (Lit ''+91'') (Opt (Cls is_space)))),
           Group 2 (Seq (Cls (between 54 57)) (Times 9 digit))]"

definition phone_fallback2 :: regex where
  "phone_fallback2 =
     Seqs [Lit ''(91)'', Opt (Cls is_space),
           Group 1 (Seq (Cls (between 54 57)) (Times 4 digit)),
           Opt space_or_dash,
           Group 2 (Times 5 digit)]"

text \<open>A capture inside a template literal: a group that took no part prints as \<^verbatim>\<open>undefined\<close>.\<close>

definition capture :: "captures \<Rightarrow> nat \<Rightarrow> string" where
  "capture caps i = (case map_of caps i of None \<Rightarrow> ''undefined'' | Some w \<Rightarrow> w)"

definition phone_of_line :: "string \<Rightarrow> string option" where
  "phone_of_line line =
     (case regex_exec phone_fallback1 line of
        Some (i, m, caps) \<Rightarrow> Some (trim m)
      | None \<Rightarrow>
          (case regex_exec phone_fallback2 line of
             Some (i, m, caps) \<Rightarrow> Some (''+91'' @ capture caps 1 @ capture caps 2)
           | None \<Rightarrow> None))"

definition extractPhones :: "string \<Rightarrow> string" where
  "extractPhones text =
     (case match_g phoneRegex text of
        Some (m # ms) \<Rightarrow>
          (let stripped = filter (\<lambda>c. \<not> (is_space c \<or> c \<in> set ''-()'')) m;
               phone = (case stripped of c # cs \<Rightarrow> if c = CHR ''0'' then ''+91'' @ cs else stripped
                        | [] \<Rightarrow> stripped)
           in if phone = [] then UNSET else phone)
      | _ \<Rightarrow>
          (case first_some phone_of_line (split (CHR 0x0A) text) of
             Some p \<Rightarrow> p
           | None \<Rightarrow> UNSET))"

subsection \<open>Entity extraction\<close>

record entities =
  candidate_name :: jsval
  email :: string
  phone :: string
  linkedin :: string

text \<open>
  Outside the \<^verbatim>\<open>try\<close> block of the model-based name extraction, \<^verbatim>\<open>extractEntities\<close>
  calls string methods on a string only; none of them throws, so the function has no
  error result.
\<close>

definition extractEntities :: "env \<Rightarrow> string \<Rightarrow> string \<Rightarrow> state \<Rightarrow> entities \<times> state" where
  "extractEntities env text resumeFileName st =
     (let (name0, st') = extractNameWithLLM env text resumeFileName st;
          name = (if \<not> truthy name0
                  then (case extractNameRegex text of None \<Rightarrow> JNull | Some n \<Rightarrow> JStr n)
                  else name0);
          linkedinMatch = match_g linkedinRegex text
      in (\<lparr>candidate_name = (if truthy name then name else JStr ''Unknown''),
           email = (case match_g emailRegex text of
                      Some (m # ms) \<Rightarrow> if m = [] then UNSET else m
                    | _ \<Rightarrow> UNSET),
           phone = extractPhones text,
           linkedin = (case linkedinMatch of
                         Some (m # ms) \<Rightarrow> if startsWith m ''http'' then m else ''https://'' @ m
                       | _ \<Rightarrow> UNSET)\<rparr>,
          st'))"

subsection \<open>The batch endpoint\<close>

record upload =
  originalname :: string
  buffer :: string

text \<open>
  The files of a request to \<^verbatim>\<open>/api/batch-match\<close>: those of the form field
  \<^verbatim>\<open>resumes\<close>, in the order submitted, and the one of the field \<^verbatim>\<open>jd\<close> if there
  is one. The handler reads them as \<^verbatim>\<open>req.files?.resumes || []\<close> and
  \<^verbatim>\<open>req.files?.jd?.[0]\<close>.
\<close>

record batch_request =
  resumes :: "upload list"
  jd :: "upload option"

text \<open>
  An entry of \<^verbatim>\<open>ranked_results\<close>, as the handler builds it. \<^verbatim>\<open>res.json\<close> sends it as
  JSON text, which leaves out a property whose value is \<^verbatim>\<open>undefined\<close> or a function.
\<close>

record ranked = entities +
  resume_name :: string
  match_score :: int
  skills_match :: jsval
  experience_fit :: jsval
  seniority_fit :: jsval
  summary :: jsval

text \<open>
  A response body: the JSON object with \<^verbatim>\<open>total\<close> and \<^verbatim>\<open>ranked_results\<close>, the JSON
  object with \<^verbatim>\<open>error\<close>, or the page of Express's default error handler, which is not
  JSON.
\<close>

datatype body = Batch (total: nat) (ranked_results: "ranked list") | ErrorBody string | ErrorPage

record http_response =
  status :: nat
  body :: body

text \<open>The two results a resume can give: the one pushed after scoring, and the one the
  \<^verbatim>\<open>catch\<close> block pushes.\<close>

definition success_result :: "upload \<Rightarrow> entities \<Rightarrow> llm_result \<Rightarrow> ranked" where
  "success_result resumeFile ents llmResult =
     \<lparr>candidate_name = candidate_name ents,
      email = email ents,
      phone = phone ents,
      linkedin = linkedin ents,
      resume_name = originalname resumeFile,
      match_score = llm_match_score llmResult,
      skills_match = own_prop (llm_fields llmResult) ''skills_match'',
      experience_fit = own_prop (llm_fields llmResult) ''experience_fit'',
      seniority_fit = own_prop (llm_fields llmResult) ''seniority_fit'',
      summary = own_prop (llm_fields llmResult) ''summary''\<rparr>"

definition failure_result :: "upload \<Rightarrow> error \<Rightarrow> ranked" where
  "failure_result resumeFile err =
     \<lparr>candidate_name = JStr ''Unknown'',
      email = UNSET,
      phone = UNSET,
      linkedin = UNSET,
      resume_name = originalname resumeFile,
      match_score = 0,
      skills_match = JUndefined,
      experience_fit = JUndefined,
      seniority_fit = JStr ''Weak'',
      summary = JStr (''Error: '' @ message err)\<rparr>"

definition parse_pdf :: "env \<Rightarrow> upload \<Rightarrow> state \<Rightarrow> (error + string) \<times> state" where
  "parse_pdf env f st = (pdfParse env (buffer f), st\<lparr>log := log st @ [PdfParse (buffer f)]\<rparr>)"

text \<open>One iteration of the loop over the resumes: the \<^verbatim>\<open>try\<close> block and its \<^verbatim>\<open>catch\<close>.\<close>

definition process_resume :: "env \<Rightarrow> string \<Rightarrow> upload \<Rightarrow> state \<Rightarrow> ranked \<times> state" where
  "process_resume env jdText resumeFile st =
     (let (t, st1) = parse_pdf env resumeFile st
      in case t of
           Inl err \<Rightarrow> (failure_result resumeFile err, st1)
         | Inr raw \<Rightarrow>
             (let resumeText = truncate_text raw;
                  (ents, st2) = extractEntities env resumeText (originalname resumeFile) st1;
                  (r, st3) = scoreResumeWithLLM env resumeText jdText st2
              in case r of
                   Inl err \<Rightarrow> (failure_result resumeFile err, st3)
                 | Inr llmResult \<Rightarrow> (success_result resumeFile ents llmResult, st3)))"

fun process_all :: "env \<Rightarrow> string \<Rightarrow> upload list \<Rightarrow> ranked list \<Rightarrow> state \<Rightarrow> ranked list \<times> state" where
  "process_all env jdText [] results st = (results, st)"
| "process_all env jdText (resumeFile # rest) results st =
     (let (r, st') = process_resume env jdText resumeFile st
      in process_all env jdText rest (results @ [r]) st')"

text \<open>
  \<^verbatim>\<open>Array.prototype.sort\<close> with a comparison function. ECMA-262 requires the sort to be
  stable, so for a consistent comparison the result is the one stable arrangement; it is
  computed here by insertion from the right.
\<close>

fun insert_by :: "('a \<Rightarrow> 'a \<Rightarrow> int) \<Rightarrow> 'a \<Rightarrow> 'a list \<Rightarrow> 'a list" where
  "insert_by cmp x [] = [x]"
| "insert_by cmp x (y # ys) = (if cmp x y \<le> 0 then x # y # ys else y # insert_by cmp x ys)"

definition Array_sort :: "('a \<Rightarrow> 'a \<Rightarrow> int) \<Rightarrow> 'a list \<Rightarrow> 'a list" where
  "Array_sort cmp xs = foldr (insert_by cmp) xs []"

definition by_score_desc :: "ranked \<Rightarrow> ranked \<Rightarrow> int" where
  "by_score_desc a b = match_score b - match_score a"

text \<open>
  The route runs the upload middleware
  \<^verbatim>\<open>upload.fields([{ name: 'resumes', maxCount: 100 }, { name: 'jd', maxCount: 1 }])\<close>
  before the handler. The middleware refuses a request with more files in a field than the
  field's \<^verbatim>\<open>maxCount\<close>: it passes an error to Express, whose default error handler
  answers with status 500, and the handler does not run. A request holds at most one
  \<^verbatim>\<open>jd\<close> file here, so the count that can exceed its bound is that of \<^verbatim>\<open>resumes\<close>.
\<close>

definition upload_fields :: "batch_request \<Rightarrow> error + batch_request" where
  "upload_fields req =
     (if 100 < length (resumes req) then Inl (Error ''Unexpected field'') else Inr req)"

text \<open>The handler of the route: the \<^verbatim>\<open>async (req, res)\<close> function.\<close>

definition batch_match_handler :: "env \<Rightarrow> batch_request \<Rightarrow> state \<Rightarrow> http_response \<times> state" where
  "batch_match_handler env req st =
     (case jd req of
        None \<Rightarrow> (\<lparr>status = 400, body = ErrorBody ''Missing resumes or JD file''\<rparr>, st)
      | Some jdFile \<Rightarrow>
          if resumes req = []
          then (\<lparr>status = 400, body = ErrorBody ''Missing resumes or JD file''\<rparr>, st)
          else
            (let (t, st1) = parse_pdf env jdFile st
             in case t of
                  Inl err \<Rightarrow> (\<lparr>status = 500, body = ErrorBody (message err)\<rparr>, st1)
                | Inr raw \<Rightarrow>
                    (let jdText = truncate_text raw;
                         (results, st2) = process_all env jdText (resumes req) [] st1;
                         ranked_results = Array_sort by_score_desc results
                     in (\<lparr>status = 200, body = Batch (length ranked_results) ranked_results\<rparr>, st2))))"

text \<open>The route \<^verbatim>\<open>POST /api/batch-match\<close>: the middleware, then the handler.\<close>

definition batch_match :: "env \<Rightarrow> batch_request \<Rightarrow> state \<Rightarrow> http_response \<times> state" where
  "batch_match env req st =
     (case upload_fields req of
        Inl err \<Rightarrow> (\<lparr>status = 500, body = ErrorPage\<rparr>, st)
      | Inr files \<Rightarrow> batch_match_handler env files st)"

subsection \<open>The request queue\<close>

text \<open>
  \<^verbatim>\<open>rateLimitedFetch\<close> and \<^verbatim>\<open>processQueue\<close> share the array \<^verbatim>\<open>requestQueue\<close> and the flag
  \<^verbatim>\<open>isProcessing\<close>. JavaScript runs them on one thread, so a run of the queue is a sequence
  of events, each handled to completion: a caller calls \<^verbatim>\<open>rateLimitedFetch\<close> with a task
  (\<open>Call\<close>), the request in flight settles (\<open>Settle\<close>), the timer set by \<^verbatim>\<open>setTimeout\<close>
  fires (\<open>Timeout\<close>, possible once its delay has passed), and time passes (\<open>Tick\<close>, in
  milliseconds). Beside the two variables of the source the state keeps what the claims
  speak of: the requests in flight, the deadlines of the pending timers, the clock, and
  the history of the tasks called, started and settled, with the time of each start and
  settlement. An event that cannot happen in a state leaves it unchanged.
\<close>

record 'a throttle =
  requestQueue :: "'a list"
  isProcessing :: bool
  in_flight :: "'a list"
  timers :: "nat list"
  clock :: nat
  called :: "'a list"
  started :: "('a \<times> nat) list"
  settled :: "('a \<times> nat) list"

text \<open>\<^verbatim>\<open>const REQUEST_DELAY = 500\<close>, in milliseconds.\<close>

definition REQUEST_DELAY :: nat where
  "REQUEST_DELAY = 500"

text \<open>
  \<^verbatim>\<open>processQueue\<close> up to its first \<^verbatim>\<open>await\<close>: when no request is being processed and
  the queue is not empty, the flag is set, the head of the queue is removed and called.
\<close>

definition processQueue :: "'a throttle \<Rightarrow> 'a throttle" where
  "processQueue q =
     (case requestQueue q of
        [] \<Rightarrow> q
      | request # rest \<Rightarrow>
          if isProcessing q then q
          else q\<lparr>isProcessing := True, requestQueue := rest,
                 in_flight := in_flight q @ [request],
                 started := started q @ [(request, clock q)]\<rparr>)"

text \<open>
  \<open>Call\<close> is the body of \<^verbatim>\<open>rateLimitedFetch\<close>: push, then \<^verbatim>\<open>processQueue()\<close>. \<open>Settle\<close>
  resumes \<^verbatim>\<open>processQueue\<close> after \<^verbatim>\<open>await request()\<close>: its \<^verbatim>\<open>finally\<close> block sets the timer.
  \<open>Timeout\<close> resumes it after the delay: the flag is cleared and \<^verbatim>\<open>processQueue()\<close> is
  called again.
\<close>

datatype 'a queue_event = Call 'a | Settle 'a | Timeout | Tick nat

fun step :: "'a queue_event \<Rightarrow> 'a throttle \<Rightarrow> 'a throttle" where
  "step (Call t) q = processQueue (q\<lparr>requestQueue := requestQueue q @ [t], called := called q @ [t]\<rparr>)"
| "step (Settle t) q =
     (if t \<in> set (in_flight q)
      then q\<lparr>in_flight := remove1 t (in_flight q),
             settled := settled q @ [(t, clock q)],
             timers := timers q @ [clock q + REQUEST_DELAY]\<rparr>
      else q)"
| "step Timeout q =
     (case timers q of
        [] \<Rightarrow> q
      | d # ds \<Rightarrow> if d \<le> clock q then processQueue (q\<lparr>timers := ds, isProcessing := False\<rparr>) else q)"
| "step (Tick d) q = q\<lparr>clock := clock q + d\<rparr>"


definition run :: "'a queue_event list \<Rightarrow> 'a throttle \<Rightarrow> 'a throttle" where
  "run es q = foldl (\<lambda>q e. step e q) q es"



subsection \<open>Example runs\<close>

text \<open>
  Concrete inputs on which the theorems below are exercised. In \<open>example_env\<close> the
  external call made at position \<open>n\<close> of the run gets an OpenAI-style reply whose message
  content is the given text,
  \<^verbatim>\<open>pdf-parse\<close> fails on the buffer \<^verbatim>\<open>corrupt\<close> and returns any other buffer as its text,
  and \<^verbatim>\<open>JSON.parse\<close> is given on the texts the runs use.
\<close>

definition example_parse :: "string \<Rightarrow> error + (string \<times> jsval) list" where
  "example_parse s =
     (if s = ''{\"match_score\": 150}'' then Inr [(''match_score'', JNum 150 0)]
      else if s = ''{\"match_score\": 72}'' then Inr [(''match_score'', JNum 72 0)]
      else if s = ''{\"match_score\": -0.5}'' then Inr [(''match_score'', JNum (- 5) (- 1))]
      else if s = ''{\"match_score\": 0.4}'' then Inr [(''match_score'', JNum 4 (- 1))]
      else if s = ''{\"match_score\": 1e21}'' then Inr [(''match_score'', JNum 1 21)]
      else if s = ''{\"match_score\": \"N/A\"}'' then Inr [(''match_score'', JStr ''N/A'')]
      else if s = ''{\"match_score\": \"85%\"}'' then Inr [(''match_score'', JStr ''85%'')]
      else if s = ''{\"match_score\": {\"toString\": 1}}''
        then Inr [(''match_score'', JObj [(''toString'', JNum 1 0)])]
      else if s = ''{\"name\": \"Ada Lovelace\"}'' then Inr [(''name'', JStr ''Ada Lovelace'')]
      else if s = ''{\"name\": \"Unknown\"}'' then Inr [(''name'', JStr ''Unknown'')]
      else if s = ''{\"name\": \"\"}'' then Inr [(''name'', JStr [])]
      else if s = ''{}'' then Inr []
      else Inl (SyntaxError ''Unexpected token in JSON''))"

definition example_reply :: "string \<Rightarrow> error + response" where
  "example_reply content =
     Inr \<lparr>ok = True,
          json = Inr (JObj [(''choices'',
                   JArr [JObj [(''message'', JObj [(''content'', JStr content)])]])])\<rparr>"

definition example_env :: "(nat \<Rightarrow> string) \<Rightarrow> env" where
  "example_env content =
     \<lparr>BASE_URL = ''https://api.openai.com/v1'',
      pdfParse = (\<lambda>b. if b = ''corrupt'' then Inl (Error ''Invalid PDF structure'') else Inr b),
      JSON_parse = example_parse,
      fetch = (\<lambda>n. example_reply (content n))\<rparr>"

definition fresh :: state where
  "fresh = \<lparr>nameCache = Map.empty, log = []\<rparr>"

definition example_upload :: "string \<Rightarrow> string \<Rightarrow> upload" where
  "example_upload name content = \<lparr>originalname = name, buffer = content\<rparr>"

text \<open>
  A batch of four resumes against one job description. The second resume cannot be
  parsed; the replies score the first and the fourth 72 and the third 150.
\<close>

definition example_batch_env :: env where
  "example_batch_env =
     example_env (\<lambda>n. if n = 7 then ''{\"match_score\": 150}'' else ''{\"match_score\": 72}'')"

definition example_request :: batch_request where
  "example_request =
     \<lparr>resumes = [example_upload ''a.pdf'' ''Ann'', example_upload ''b.pdf'' ''corrupt'',
                 example_upload ''c.pdf'' ''Cy'', example_upload ''d.pdf'' ''Di''],
      jd = Some (example_upload ''jd.pdf'' ''job'')\<rparr>"

text \<open>The resume text of the specification's scenario.\<close>

definition jane_doe :: string where
  "jane_doe =
     ''Jane Q. Doe'' @ [CHR 0x0A] @ ''Senior Engineer'' @ [CHR 0x0A] @
     ''jane.doe@example.com'' @ [CHR 0x0A] @ ''+1 415-555-0100'' @ [CHR 0x0A] @
     ''linkedin.com/in/janedoe''"

section \<open>Properties\<close>

subsection \<open>Number to string and back\<close>

lemma digit_char_code: "d < 10 \<Longrightarrow> (of_char (digit_char d) :: nat) = 48 + d"
proof -
  assume "d < 10"
  then consider "d = 0" | "d = 1" | "d = 2" | "d = 3" | "d = 4" | "d = 5" | "d = 6" | "d = 7" | "d = 8" | "d = 9"
    by atomize_elim arith
  then show ?thesis by cases (simp_all add: digit_char_def)
qed

lemma digit_value_digit_char: "d < 10 \<Longrightarrow> digit_value (digit_char d) = Some d"
  by (simp add: digit_value_def digit_char_code Let_def)




lemma radix_value_snoc:
  "radix_value R (Z @ [c]) = radix_value R Z * R + (case digit_value c of None \<Rightarrow> 0 | Some d \<Rightarrow> d)"
  by (simp add: radix_value_def)

lemma radix_value_digits: "radix_value 10 (digits n) = n"
proof (induction n rule: digits.induct)
  case (1 n)
  show ?case
  proof (cases "n < 10")
    case True
    then show ?thesis
      by (simp add: digits.simps [of n] radix_value_def digit_value_digit_char)
  next
    case False
    with "1.IH" have "radix_value 10 (digits (n div 10)) = n div 10" by simp
    with False show ?thesis
      by (simp add: digits.simps [of n] radix_value_snoc digit_value_digit_char)
  qed
qed













lemma radix_value_zeros: "\<forall>c\<in>set Z. c = CHR ''0'' \<Longrightarrow> radix_value 10 Z = 0"
proof (induction Z rule: rev_induct)
  case Nil
  then show ?case by (simp add: radix_value_def)
next
  case (snoc c Z)
  then show ?case by (simp add: radix_value_snoc digit_value_def)
qed

lemma digits_not_all_zero:
  assumes "0 < n"
  shows "rev (dropWhile (\<lambda>c. c = CHR ''0'') (rev (digits n))) \<noteq> []"
proof
  assume "rev (dropWhile (\<lambda>c. c = CHR ''0'') (rev (digits n))) = []"
  then have "\<forall>c\<in>set (digits n). c = CHR ''0''" by (simp add: dropWhile_eq_Nil_conv)
  then have "radix_value 10 (digits n) = 0" by (rule radix_value_zeros)
  with assms show False by (simp add: radix_value_digits)
qed

lemma parseInt_string_zero_point: "parseInt_string (''0.'' @ rest) = Some 0"
  by (simp add: parseInt_string_def StrWhiteSpaceChar_def is_radix_digit_def digit_value_def
      radix_value_def)

lemma parseInt_string_minus_zero_point: "parseInt_string (''-0.'' @ rest) = Some 0"
  by (simp add: parseInt_string_def StrWhiteSpaceChar_def is_radix_digit_def digit_value_def
      radix_value_def)

lemma parseInt_fraction:
  assumes "m \<noteq> 0" and "- 6 < int (length (digits (nat \<bar>m\<bar>))) + e"
    and "int (length (digits (nat \<bar>m\<bar>))) + e \<le> 0"
  shows "parseInt (JNum m e) = Inr (Some 0)"
proof -
  let ?full = "digits (nat \<bar>m\<bar>)"
  let ?ds = "rev (dropWhile (\<lambda>c. c = CHR ''0'') (rev ?full))"
  let ?n = "int (length ?full) + e"
  from assms(1) have "?ds \<noteq> []" by (intro digits_not_all_zero) simp
  then have k: "0 < int (length ?ds)" by simp
  with assms(3) have "\<not> int (length ?ds) \<le> ?n" by linarith
  define rest where "rest = replicate (nat (- ?n)) (CHR ''0'') @ ?ds"
  from assms \<open>\<not> int (length ?ds) \<le> ?n\<close>
  have nts: "num_to_string m e = (if m < 0 then ''-'' else []) @ ''0.'' @ rest"
    by (simp add: num_to_string_def Let_def rest_def del: length_rev)
  show ?thesis
  proof (cases "m < 0")
    case True
    with nts have "num_to_string m e = ''-0.'' @ rest" by simp
    then show ?thesis
      by (simp only: parseInt_def ToString.simps sum.case parseInt_string_minus_zero_point)
  next
    case False
    with nts have "num_to_string m e = ''0.'' @ rest" by simp
    then show ?thesis
      by (simp only: parseInt_def ToString.simps sum.case parseInt_string_zero_point)
  qed
qed

subsection \<open>Score coercion\<close>

lemma scoreResumeWithLLM_reply:
  assumes "fetch env (length (log st)) = Inr response" and "ok response"
    and "json response = Inr data"
    and "response_content (PROVIDER env) data = Inr (JStr content)"
    and "extractJSON env content = Inr result"
    and "parseInt (own_prop result ''match_score'') = Inr p"
  shows "fst (scoreResumeWithLLM env resumeText jdText st) =
           Inr \<lparr>llm_match_score = max 0 (min 100 (or50 p)), llm_fields = result\<rparr>"
  using assms
  unfolding scoreResumeWithLLM_def rateLimitedFetch_def tbind_def
  by simp

lemma ok_json:
  "ok \<lparr>ok = True, json = j\<rparr>" "json \<lparr>ok = True, json = j\<rparr> = j"
  by simp_all



lemma example_scoring_reply:
  "fetch (example_env (\<lambda>n. c)) (length (log fresh)) = example_reply c"
  "example_reply c = Inr \<lparr>ok = True, json = Inr (JObj [(''choices'',
       JArr [JObj [(''message'', JObj [(''content'', JStr c)])]])])\<rparr>"
  "response_content (PROVIDER (example_env (\<lambda>n. c)))
     (JObj [(''choices'', JArr [JObj [(''message'', JObj [(''content'', JStr c)])]])]) = Inr (JStr c)"
proof -
  show "fetch (example_env (\<lambda>n. c)) (length (log fresh)) = example_reply c"
    by (simp add: example_env_def)
  show "example_reply c = Inr \<lparr>ok = True, json = Inr (JObj [(''choices'',
       JArr [JObj [(''message'', JObj [(''content'', JStr c)])]])])\<rparr>"
    by (simp add: example_reply_def)
  have "PROVIDER (example_env (\<lambda>n. c)) = OPENAI"
    unfolding PROVIDER_def example_env_def by simp code_simp
  then show "response_content (PROVIDER (example_env (\<lambda>n. c)))
     (JObj [(''choices'', JArr [JObj [(''message'', JObj [(''content'', JStr c)])]])]) = Inr (JStr c)"
    by (simp add: response_content_def tbind_def own_prop_def)
qed




text \<open>
  Two defects of the coercion, on numbers outside the range. The code means to clamp
  (its comment: \<^verbatim>\<open>Ensure score is between 0-100\<close>) and misses the nearest bound for them,
  because \<^verbatim>\<open>parseInt\<close> reads the printed number. -0.5 has 0 as its nearest bound, and the
  scoring call returns 50: the text \<^verbatim>\<open>-0.5\<close> is read as (minus) zero, which is falsy, so
  the default of 50 replaces it. 1e21 has 100 as its nearest bound, and the scoring call
  returns 1: the number prints as \<^verbatim>\<open>1e+21\<close>, of which \<^verbatim>\<open>parseInt\<close> reads the leading 1.
\<close>

lemma clamp_missed_on_fraction_and_exponent:
  "fst (scoreResumeWithLLM (example_env (\<lambda>n. ''{\"match_score\": -0.5}'')) ''cv'' ''jd'' fresh) =
     Inr \<lparr>llm_match_score = 50, llm_fields = [(''match_score'', JNum (- 5) (- 1))]\<rparr> \<and>
   spec_nearest_bound (- 5) (- 1) = Some 0 \<and>
   fst (scoreResumeWithLLM (example_env (\<lambda>n. ''{\"match_score\": 1e21}'')) ''cv'' ''jd'' fresh) =
     Inr \<lparr>llm_match_score = 1, llm_fields = [(''match_score'', JNum 1 21)]\<rparr> \<and>
   spec_nearest_bound 1 21 = Some 100"
  by code_simp

lemma parseInt_reads_zero:
  assumes "parseInt v = Inr (Some 0) \<or> v = JStr ''0'' \<or>
           (\<exists>m e. v = JNum m e \<and> (m = 0 \<or> small_fraction m e))"
  shows "parseInt v = Inr (Some 0)"
proof -
  have "parseInt (JStr ''0'') = Inr (Some 0)" by code_simp
  moreover have "parseInt (JNum 0 e) = Inr (Some 0)" for e
    by (simp add: parseInt_def num_to_string_def) code_simp
  moreover have "parseInt (JNum m e) = Inr (Some 0)" if "small_fraction m e" for m e
    using that by (intro parseInt_fraction) (simp_all add: small_fraction_def)
  ultimately show ?thesis using assms by auto
qed

text \<open>
  C10. When the match score of the parsed reply is a value that \<^verbatim>\<open>parseInt\<close> maps to 0 (in
  particular the number 0, the string \<^verbatim>\<open>0\<close>, or a nonzero number below 1 in magnitude
  that prints in positional notation, such as 0.4), the scoring call returns, and its
  \<open>match_score\<close> is 50, not 0.
\<close>

theorem zero_score_becomes_50:
  assumes "fetch env (length (log st)) = Inr response" and "ok response"
    and "json response = Inr data"
    and "response_content (PROVIDER env) data = Inr (JStr content)"
    and "extractJSON env content = Inr result"
    and "parseInt (own_prop result ''match_score'') = Inr (Some 0) \<or>
         own_prop result ''match_score'' = JStr ''0'' \<or>
         (\<exists>m e. own_prop result ''match_score'' = JNum m e \<and> (m = 0 \<or> small_fraction m e))"
  shows "fst (scoreResumeWithLLM env resumeText jdText st) =
           Inr \<lparr>llm_match_score = 50, llm_fields = result\<rparr>"
  using scoreResumeWithLLM_reply [OF assms(1-5) parseInt_reads_zero [OF assms(6)], of resumeText jdText]
  by (simp add: or50_def)

theorem zero_score_becomes_50_witness:
  "small_fraction 4 (- 1) \<and>
   fst (scoreResumeWithLLM (example_env (\<lambda>n. ''{\"match_score\": 0.4}'')) ''cv'' ''jd'' fresh) =
     Inr \<lparr>llm_match_score = 50, llm_fields = [(''match_score'', JNum 4 (- 1))]\<rparr>"
proof -
  let ?env = "example_env (\<lambda>n. ''{\"match_score\": 0.4}'')"
  let ?data = "JObj [(''choices'',
                 JArr [JObj [(''message'', JObj [(''content'', JStr ''{\"match_score\": 0.4}'')])]])]"
  have 1: "fetch ?env (length (log fresh)) = Inr \<lparr>ok = True, json = Inr ?data\<rparr>"
    by (simp add: example_env_def example_reply_def)
  have 2: "ok \<lparr>ok = True, json = Inr ?data\<rparr>" by simp
  have 3: "json \<lparr>ok = True, json = Inr ?data\<rparr> = Inr ?data" by simp
  have 4: "response_content (PROVIDER ?env) ?data = Inr (JStr ''{\"match_score\": 0.4}'')"
    by code_simp
  have 5: "extractJSON ?env ''{\"match_score\": 0.4}'' = Inr [(''match_score'', JNum 4 (- 1))]"
    by code_simp
  have s: "small_fraction 4 (- 1)" by code_simp
  then have 6: "parseInt (own_prop [(''match_score'', JNum 4 (- 1))] ''match_score'') = Inr (Some 0) \<or>
         own_prop [(''match_score'', JNum 4 (- 1))] ''match_score'' = JStr ''0'' \<or>
         (\<exists>m e. own_prop [(''match_score'', JNum 4 (- 1))] ''match_score'' = JNum m e \<and>
                (m = 0 \<or> small_fraction m e))"
    by (simp add: own_prop_def)
  from zero_score_becomes_50 [OF 1 2 3 4 5 6, of "''cv''" "''jd''"] s show ?thesis by simp
qed

subsection \<open>Locating the JSON text of a reply\<close>

lemma clear_Nil [simp]: "clear [] st = st"
  by (simp add: clear_def)

lemma star_any:
  assumes "\<And>c x xs. f (c, x # xs) = [(c, xs)]" and "\<And>c. f (c, []) = []"
  shows "length s \<le> n \<Longrightarrow> star_aux f n (c, s) = map (Pair c) (suffixes s)"
proof (induction n arbitrary: s)
  case 0
  then show ?case by simp
next
  case (Suc n)
  show ?case
  proof (cases s)
    case Nil
    then show ?thesis by (simp add: assms)
  next
    case (Cons x xs)
    with Suc.prems have "length xs \<le> n" by simp
    from Suc.IH [OF this] Cons show ?thesis by (simp add: progress_def assms)
  qed
qed

lemma after_brace_Cons:
  "after_brace c (x # xs) = after_brace c xs @ (if x = CHR ''}'' then [(c, xs)] else [])"
  by (simp add: after_brace_def Chr_def)

lemma after_brace_empty: "after_brace c xs = [] \<longleftrightarrow> CHR ''}'' \<notin> set xs"
  by (induction xs) (auto simp: after_brace_Cons, simp add: after_brace_def Chr_def)

lemma after_brace_hd:
  "CHR ''}'' \<in> set xs \<Longrightarrow>
   hd (after_brace c xs) = (c, rev (takeWhile (\<lambda>c. c \<noteq> CHR ''}'') (rev xs)))"
proof (induction xs)
  case Nil
  then show ?case by simp
next
  case (Cons x xs)
  show ?case
  proof (cases "CHR ''}'' \<in> set xs")
    case True
    then have "after_brace c xs \<noteq> []" by (simp add: after_brace_empty)
    with Cons.IH [OF True] True show ?thesis
      by (simp add: after_brace_Cons takeWhile_append1 [where x = "CHR ''}''"]) 
  next
    case False
    with Cons.prems have x: "x = CHR ''}''" by simp
    from False have "after_brace c xs = []" by (simp add: after_brace_empty)
    moreover from False have "takeWhile (\<lambda>c. c \<noteq> CHR ''}'') (rev xs @ ''}'') = rev xs"
      by (subst takeWhile_append2) auto
    ultimately show ?thesis using x by (simp add: after_brace_Cons)
  qed
qed

lemma matcher_json_regex:
  "matcher json_regex (c, s) =
     (case s of [] \<Rightarrow> [] | x # xs \<Rightarrow> if x = CHR ''{'' then after_brace c xs else [])"
proof (cases s)
  case Nil
  then show ?thesis by (simp add: json_regex_def Chr_def)
next
  case (Cons x xs)
  have "star_aux (\<lambda>st'. matcher (Cls (\<lambda>c. True)) (clear [] st')) (length xs) (c, xs) =
          map (Pair c) (suffixes xs)"
    by (rule star_any) simp_all
  then have "matcher (Star (Cls (\<lambda>c. True))) (c, xs) = map (Pair c) (suffixes xs)" by simp
  with Cons show ?thesis
    by (simp add: json_regex_def after_brace_def del: matcher.simps(6)) (simp add: Chr_def)
qed

lemma length_after_last:
  "length xs - length (takeWhile P (rev xs)) = length (dropWhile P (rev xs))"
  by (metis add_diff_cancel_left' length_append length_rev takeWhile_dropWhile_id)

lemma take_before_last:
  "take (length (dropWhile P (rev xs))) xs = rev (dropWhile P (rev xs))"
proof -
  have "rev xs = takeWhile P (rev xs) @ dropWhile P (rev xs)" by simp
  then have "xs = rev (dropWhile P (rev xs)) @ rev (takeWhile P (rev xs))"
    by (metis rev_append rev_rev_ident)
  then show ?thesis by (metis append_eq_conv_conj length_rev)
qed

lemma match_here_json_regex:
  "match_here json_regex s =
     (case s of
        [] \<Rightarrow> None
      | x # xs \<Rightarrow>
          if x = CHR ''{'' \<and> CHR ''}'' \<in> set xs
          then Some (x # rev (dropWhile (\<lambda>c. c \<noteq> CHR ''}'') (rev xs)), [])
          else None)"
proof (cases s)
  case Nil
  then show ?thesis by (simp add: match_here_def matcher_json_regex)
next
  case (Cons x xs)
  show ?thesis
  proof (cases "x = CHR ''{'' \<and> CHR ''}'' \<in> set xs")
    case False
    then show ?thesis using Cons after_brace_empty [of "[]" xs]
      by (auto simp: match_here_def matcher_json_regex split: list.splits)
  next
    case True
    then have ne: "after_brace [] xs \<noteq> []" by (simp add: after_brace_empty)
    then obtain st rest where st: "after_brace [] xs = st # rest" by (cases "after_brace [] xs") auto
    with after_brace_hd [of xs "[]"] True
    have "st = ([], rev (takeWhile (\<lambda>c. c \<noteq> CHR ''}'') (rev xs)))" by simp
    moreover have "length (takeWhile (\<lambda>c. c \<noteq> CHR ''}'') (rev xs)) \<le> length xs"
      by (metis length_rev length_takeWhile_le)
    ultimately show ?thesis using Cons True st
      by (simp add: match_here_def matcher_json_regex Suc_diff_le length_after_last take_before_last)
  qed
qed

lemma regex_exec_json_regex:
  "map_option (\<lambda>(i, m, caps). m) (regex_exec json_regex text) = brace_span text"
proof (induction "text")
  case Nil
  then show ?case by (simp add: match_here_json_regex brace_span_def)
next
  case (Cons x xs)
  show ?case
  proof (cases "x = CHR ''{''")
    case False
    then have "brace_span (x # xs) = brace_span xs" by (simp add: brace_span_def)
    with Cons False show ?thesis
      by (cases "regex_exec json_regex xs") (auto simp: match_here_json_regex)
  next
    case True
    show ?thesis
    proof (cases "CHR ''}'' \<in> set xs")
      case in_xs: True
      with \<open>x = CHR ''{''\<close> show ?thesis by (simp add: match_here_json_regex brace_span_def)
    next
      case False
      have "CHR ''}'' \<notin> set (tl (dropWhile (\<lambda>c. c \<noteq> CHR ''{'') xs))"
        using False by (metis list.sel(2) list.set_sel(2) set_dropWhileD)
      then have "brace_span xs = None"
        by (auto simp: brace_span_def split: list.splits)
      moreover from True False have "brace_span (x # xs) = None" by (simp add: brace_span_def)
      ultimately show ?thesis using Cons True False
        by (cases "regex_exec json_regex xs") (auto simp: match_here_json_regex)
    qed
  qed
qed

text \<open>
  C5, as amended. Response parsing hands to \<^verbatim>\<open>JSON.parse\<close> the text from the first
  opening brace of the reply to the last closing brace after it, and returns what the
  parser returns; when the reply has no opening brace followed by a closing brace, or when
  the parser fails, the call fails. For a reply that holds more than one JSON object the
  text parsed spans from the first object's opening brace to the last object's closing
  brace.
\<close>

theorem extractJSON_brace_span:
  "extractJSON env text =
     (case brace_span text of
        None \<Rightarrow> Inl (Error ''LLM did not return valid JSON'')
      | Some m \<Rightarrow> JSON_parse env m)"
  using regex_exec_json_regex [of "text"]
  by (auto simp: extractJSON_def split: option.splits)

theorem extractJSON_brace_span_witness:
  "extractJSON (example_env (\<lambda>n. [])) ''Score: {\"match_score\": 72} as asked'' =
     Inr [(''match_score'', JNum 72 0)] \<and>
   extractJSON (example_env (\<lambda>n. [])) ''no score'' = Inl (Error ''LLM did not return valid JSON'')"
proof -
  have 1: "brace_span ''Score: {\"match_score\": 72} as asked'' = Some ''{\"match_score\": 72}''"
    by code_simp
  have 2: "brace_span ''no score'' = None" by code_simp
  have 3: "JSON_parse (example_env (\<lambda>n. [])) ''{\"match_score\": 72}'' = Inr [(''match_score'', JNum 72 0)]"
    by (simp add: example_env_def example_parse_def)
  show ?thesis
    using extractJSON_brace_span [of "example_env (\<lambda>n. [])" "''Score: {\"match_score\": 72} as asked''"]
      extractJSON_brace_span [of "example_env (\<lambda>n. [])" "''no score''"] 1 2 3
    by simp
qed

text \<open>
  C5 as stated fails. In the reply below the first balanced object is
  \<^verbatim>\<open>{"match_score": 72}\<close>, which parses, but the text handed to the parser runs to the
  last closing brace, holds two objects, and is rejected: the call fails.
\<close>

theorem first_object_not_parsed_counterexample:
  "first_balanced ''{\"match_score\": 72} or {\"match_score\": 150}'' = Some ''{\"match_score\": 72}'' \<and>
   JSON_parse (example_env (\<lambda>n. [])) ''{\"match_score\": 72}'' = Inr [(''match_score'', JNum 72 0)] \<and>
   brace_span ''{\"match_score\": 72} or {\"match_score\": 150}'' =
     Some ''{\"match_score\": 72} or {\"match_score\": 150}'' \<and>
   extractJSON (example_env (\<lambda>n. [])) ''{\"match_score\": 72} or {\"match_score\": 150}'' =
     Inl (SyntaxError ''Unexpected token in JSON'')"
  by code_simp

subsection \<open>Entity extraction\<close>

lemma star_aux_suffix:
  assumes "\<And>st st'. st' \<in> set (f st) \<Longrightarrow> suffix (snd st') (snd st)"
  shows "st' \<in> set (star_aux f n st) \<Longrightarrow> suffix (snd st') (snd st)"
proof (induction n arbitrary: st st')
  case 0
  then show ?case by simp
next
  case (Suc n)
  from Suc.prems consider "st' = st"
    | st1 where "st1 \<in> set (f st)" "st' \<in> set (star_aux f n st1)"
    by (auto split: if_splits)
  then show ?case
  proof cases
    case 1
    then show ?thesis by simp
  next
    case 2
    from assms [OF 2(1)] Suc.IH [OF 2(2)] show ?thesis by (rule suffix_order.trans [rotated])
  qed
qed

lemma matcher_suffix: "st' \<in> set (matcher r st) \<Longrightarrow> suffix (snd st') (snd st)"
proof (induction r arbitrary: st st')
  case Eps
  then show ?case by simp
next
  case (Cls p)
  then show ?case by (cases "snd st") (auto simp: suffix_def split: if_splits)
next
  case (Seq a b)
  from Seq.prems obtain st1 where "st1 \<in> set (matcher a st)" "st' \<in> set (matcher b st1)" by auto
  with Seq.IH show ?case by (meson suffix_order.trans)
next
  case (Alt a b)
  from Alt.prems have "st' \<in> set (matcher a st) \<or> st' \<in> set (matcher b st)" by simp
  with Alt.IH show ?case by blast
next
  case (Opt a)
  from Opt.prems consider "st' = st" | "st' \<in> set (matcher a (clear (groups a) st))" by auto
  then show ?case
  proof cases
    case 1
    then show ?thesis by simp
  next
    case 2
    from Opt.IH [OF 2] show ?thesis by (simp add: clear_def)
  qed
next
  case (Star a)
  have "suffix (snd y) (snd x)" if "y \<in> set (matcher a (clear (groups a) x))" for x y
    using Star.IH [OF that] by (simp add: clear_def)
  from star_aux_suffix [of "\<lambda>st'. matcher a (clear (groups a) st')", OF this] Star.prems
  show ?case by simp
next
  case (Group i a)
  from Group.prems obtain st0 where "st0 \<in> set (matcher a st)" "snd st' = snd st0" by auto
  with Group.IH show ?case by metis
next
  case Eol
  then show ?case by (auto split: if_splits)
qed

lemma ends_in_matcher:
  "ends_in P r \<Longrightarrow> st' \<in> set (matcher r st) \<Longrightarrow> \<exists>w c. snd st = w @ c # snd st' \<and> P c"
proof (induction r arbitrary: st st')
  case (Cls q)
  then show ?case by (cases "snd st") (auto split: if_splits)
next
  case (Seq a b)
  from Seq.prems obtain st1 where 1: "st1 \<in> set (matcher a st)" and 2: "st' \<in> set (matcher b st1)" by auto
  from matcher_suffix [OF 1] obtain u where u: "snd st = u @ snd st1" by (auto simp: suffix_def)
  from Seq.prems have "ends_in P b" by simp
  from Seq.IH(2) [OF this 2] obtain w c where "snd st1 = w @ c # snd st'" "P c" by blast
  with u have "snd st = (u @ w) @ c # snd st' \<and> P c" by simp
  then show ?case by blast
next
  case (Alt a b)
  from Alt.prems have "st' \<in> set (matcher a st) \<or> st' \<in> set (matcher b st)"
    and "ends_in P a" and "ends_in P b" by simp_all
  with Alt.IH show ?case by blast
next
  case (Group i a)
  from Group.prems obtain st0 where "st0 \<in> set (matcher a st)" "snd st' = snd st0" by auto
  with Group show ?case by (metis ends_in.simps(4))
qed simp_all

lemma match_here_ends_in:
  assumes "ends_in P r" and "match_here r s = Some (m, caps)"
  shows "m \<noteq> [] \<and> P (last m)"
proof -
  from assms(2) obtain st rest where st: "matcher r ([], s) = st # rest"
    and m: "m = take (length s - length (snd st)) s"
    by (auto simp: match_here_def split: list.splits)
  from st have "st \<in> set (matcher r ([], s))" by simp
  from ends_in_matcher [OF assms(1) this] obtain w c where "s = w @ c # snd st" "P c" by auto
  with m have "m = w @ [c]" by simp
  with \<open>P c\<close> show ?thesis by simp
qed

lemma regex_exec_match_here:
  "regex_exec r s = Some (i, m, caps) \<Longrightarrow> \<exists>s'. match_here r s' = Some (m, caps)"
proof (induction s arbitrary: i)
  case Nil
  then show ?case by (auto split: option.splits)
next
  case (Cons x xs)
  show ?case
  proof (cases "match_here r (x # xs)")
    case (Some a)
    with Cons.prems show ?thesis by auto
  next
    case None
    with Cons.prems obtain j where "regex_exec r xs = Some (j, m, caps)"
      by (auto split: option.splits)
    from Cons.IH [OF this] show ?thesis .
  qed
qed

lemma trim_nonempty:
  assumes "m \<noteq> []" and "\<not> StrWhiteSpaceChar (last m)"
  shows "trim m \<noteq> []"
proof -
  let ?d = "dropWhile StrWhiteSpaceChar m"
  from assms have "last m \<in> set m" by simp
  with assms(2) have ne: "?d \<noteq> []" by (auto simp: dropWhile_eq_Nil_conv)
  from ne have "last ?d = last m" by (metis last_appendR takeWhile_dropWhile_id)
  with ne have "hd (rev ?d) = last m" by (simp add: hd_rev)
  with ne assms(2) have "dropWhile StrWhiteSpaceChar (rev ?d) \<noteq> []"
    by (cases "rev ?d") auto
  then show ?thesis by (simp add: trim_def)
qed

lemma digit_not_space: "is_digit c \<Longrightarrow> \<not> StrWhiteSpaceChar c"
  by (auto simp: is_digit_def StrWhiteSpaceChar_def code_def)

lemma ends_in_phone_fallback1: "ends_in is_digit phone_fallback1"
  by (simp add: phone_fallback1_def digit_def eval_nat_numeral)

lemma first_some_Some: "first_some f xs = Some y \<Longrightarrow> \<exists>x\<in>set xs. f x = Some y"
  by (induction xs) (auto split: option.splits)

lemma phone_of_line_nonempty: "phone_of_line line = Some p \<Longrightarrow> p \<noteq> []"
proof -
  assume p: "phone_of_line line = Some p"
  show ?thesis
  proof (cases "regex_exec phone_fallback1 line")
    case None
    with p show ?thesis by (auto simp: phone_of_line_def split: option.splits)
  next
    case (Some a)
    then obtain i m caps where a: "regex_exec phone_fallback1 line = Some (i, m, caps)"
      by (cases a) auto
    with p have "p = trim m" by (simp add: phone_of_line_def)
    moreover from regex_exec_match_here [OF a] obtain s' where "match_here phone_fallback1 s' = Some (m, caps)" ..
    from match_here_ends_in [OF ends_in_phone_fallback1 this] have "m \<noteq> []" "\<not> StrWhiteSpaceChar (last m)"
      by (simp_all add: digit_not_space)
    then have "trim m \<noteq> []" by (rule trim_nonempty)
    ultimately show ?thesis by simp
  qed
qed

lemma UNSET_nonempty: "UNSET \<noteq> []"
  by (simp add: UNSET_def)

lemma extractPhones_nonempty: "extractPhones txt \<noteq> []"
proof (cases "match_g phoneRegex txt")
  have key: "(case first_some phone_of_line (split (CHR 0x0A) txt) of Some p \<Rightarrow> p | None \<Rightarrow> UNSET) \<noteq> []"
  proof (cases "first_some phone_of_line (split (CHR 0x0A) txt)")
    case None
    then show ?thesis by (simp add: UNSET_nonempty)
  next
    case (Some p)
    from first_some_Some [OF this] obtain line where "phone_of_line line = Some p" by blast
    from phone_of_line_nonempty [OF this] Some show ?thesis by simp
  qed
  {
    case None
    with key show ?thesis by (simp add: extractPhones_def)
  next
  case (Some ms)
  show ?thesis
  proof (cases ms)
    case Nil
    with Some key show ?thesis by (simp add: extractPhones_def)
  next
    case (Cons m rest)
    with Some show ?thesis by (simp add: extractPhones_def Let_def UNSET_nonempty)
  qed
  }
qed

lemma extractPhones_unset:
  "match_g phoneRegex txt = None \<Longrightarrow> first_some phone_of_line (split (CHR 0x0A) txt) = None \<Longrightarrow>
   extractPhones txt = UNSET"
  by (simp add: extractPhones_def)

lemma name_regex_nonempty: "regex_test_anchored name_regex n \<Longrightarrow> n \<noteq> []"
  by (auto simp: regex_test_anchored_def regex_exec_anchored_def match_here_def name_regex_def)

lemma extractNameRegex_nonempty: "extractNameRegex txt = Some n \<Longrightarrow> n \<noteq> []"
proof -
  assume "extractNameRegex txt = Some n"
  then obtain line where "name_of_line line = Some n"
    using first_some_Some [of name_of_line _ n] by (auto simp: extractNameRegex_def Let_def)
  then have "regex_test_anchored name_regex n"
    by (auto simp: name_of_line_def Let_def split: if_splits)
  then show ?thesis by (rule name_regex_nonempty)
qed


text \<open>
  What \<open>extractEntities\<close> returns, for every text, file name and state (the function has
  no failing outcome: outside the guarded model call it only calls string methods on a
  string). In the result, email, phone and profile URL are never the empty string, and
  each is the unset sentinel when its pattern is absent from the text. The candidate name
  is a truthy value: the value \<open>extractNameWithLLM\<close> returned when that is truthy, and
  otherwise (a failed call, or an empty or \<^verbatim>\<open>Unknown\<close> name) the non-empty name the
  fallback found, or \<^verbatim>\<open>Unknown\<close>.
\<close>

lemma extractEntities_result:
  assumes "extractEntities env txt k st = (ents, st')"
  shows "email ents \<noteq> [] \<and> phone ents \<noteq> [] \<and> linkedin ents \<noteq> [] \<and>
         truthy (candidate_name ents) \<and> candidate_name ents \<noteq> JStr [] \<and>
         (match_g emailRegex txt = None \<longrightarrow> email ents = UNSET) \<and>
         (match_g phoneRegex txt = None \<and> first_some phone_of_line (split (CHR 0x0A) txt) = None
            \<longrightarrow> phone ents = UNSET) \<and>
         (match_g linkedinRegex txt = None \<longrightarrow> linkedin ents = UNSET) \<and>
         (truthy (fst (extractNameWithLLM env txt k st))
            \<longrightarrow> candidate_name ents = fst (extractNameWithLLM env txt k st)) \<and>
         (\<not> truthy (fst (extractNameWithLLM env txt k st))
            \<longrightarrow> (\<exists>n. n \<noteq> [] \<and> candidate_name ents = JStr n \<and>
                   (extractNameRegex txt = None \<longrightarrow> n = ''Unknown'') \<and>
                   (extractNameRegex txt \<noteq> None \<longrightarrow> extractNameRegex txt = Some n)))"
proof -
  obtain name0 st0 where n: "extractNameWithLLM env txt k st = (name0, st0)"
    by (cases "extractNameWithLLM env txt k st")
  let ?name = "if \<not> truthy name0
               then (case extractNameRegex txt of None \<Rightarrow> JNull | Some n \<Rightarrow> JStr n) else name0"
  from assms n have ents: "ents =
      \<lparr>candidate_name = (if truthy ?name then ?name else JStr ''Unknown''),
       email = (case match_g emailRegex txt of Some (m # ms) \<Rightarrow> if m = [] then UNSET else m | _ \<Rightarrow> UNSET),
       phone = extractPhones txt,
       linkedin = (case match_g linkedinRegex txt of
                     Some (m # ms) \<Rightarrow> if startsWith m ''http'' then m else ''https://'' @ m
                   | _ \<Rightarrow> UNSET)\<rparr>"
    unfolding extractEntities_def by (simp add: Let_def)
  have e: "email ents \<noteq> []"
    by (simp add: ents UNSET_nonempty split: option.splits list.splits)
  have p: "phone ents \<noteq> []" by (simp add: ents extractPhones_nonempty)
  have l: "linkedin ents \<noteq> []"
    by (auto simp: ents UNSET_nonempty startsWith_def split: option.splits list.splits)
  have c: "truthy (candidate_name ents)" by (simp add: ents)
  then have c': "candidate_name ents \<noteq> JStr []" by auto
  have e0: "email ents = UNSET" if "match_g emailRegex txt = None" using that by (simp add: ents)
  have p0: "phone ents = UNSET"
    if "match_g phoneRegex txt = None \<and> first_some phone_of_line (split (CHR 0x0A) txt) = None"
    using that by (simp add: ents extractPhones_unset)
  have l0: "linkedin ents = UNSET" if "match_g linkedinRegex txt = None"
    using that by (simp add: ents)
  have model: "candidate_name ents = fst (extractNameWithLLM env txt k st)"
    if "truthy (fst (extractNameWithLLM env txt k st))"
    using that n by (simp add: ents)
  have fallback: "\<exists>m. m \<noteq> [] \<and> candidate_name ents = JStr m \<and>
                   (extractNameRegex txt = None \<longrightarrow> m = ''Unknown'') \<and>
                   (extractNameRegex txt \<noteq> None \<longrightarrow> extractNameRegex txt = Some m)"
    if f: "\<not> truthy (fst (extractNameWithLLM env txt k st))"
  proof (cases "extractNameRegex txt")
    case None
    with f n show ?thesis by (simp add: ents)
  next
    case (Some m)
    from extractNameRegex_nonempty [OF this] have "m \<noteq> []" .
    with Some f n show ?thesis by (simp add: ents)
  qed
  show ?thesis
  proof (intro conjI impI)
    show "email ents \<noteq> []" by (rule e)
    show "phone ents \<noteq> []" by (rule p)
    show "linkedin ents \<noteq> []" by (rule l)
    show "truthy (candidate_name ents)" by (rule c)
    show "candidate_name ents \<noteq> JStr []" by (rule c')
    show "email ents = UNSET" if "match_g emailRegex txt = None" using that by (rule e0)
    show "phone ents = UNSET"
      if "match_g phoneRegex txt = None \<and> first_some phone_of_line (split (CHR 0x0A) txt) = None"
      using that by (rule p0)
    show "linkedin ents = UNSET" if "match_g linkedinRegex txt = None" using that by (rule l0)
    show "candidate_name ents = fst (extractNameWithLLM env txt k st)"
      if "truthy (fst (extractNameWithLLM env txt k st))" using that by (rule model)
    show "\<exists>m. m \<noteq> [] \<and> candidate_name ents = JStr m \<and>
                   (extractNameRegex txt = None \<longrightarrow> m = ''Unknown'') \<and>
                   (extractNameRegex txt \<noteq> None \<longrightarrow> extractNameRegex txt = Some m)"
      if "\<not> truthy (fst (extractNameWithLLM env txt k st))" using that by (rule fallback)
  qed
qed

text \<open>
  Two runs: a text with no contact data and a reply naming \<^verbatim>\<open>Unknown\<close>, and the resume of
  the specification's scenario with a reply whose name is empty.
\<close>

lemma example_entities:
  "fst (extractEntities (example_env (\<lambda>n. ''{\"name\": \"Unknown\"}'')) ''no contact data'' ''a.pdf'' fresh) =
     \<lparr>candidate_name = JStr ''Unknown'', email = UNSET, phone = UNSET, linkedin = UNSET\<rparr>"
  "fst (extractEntities (example_env (\<lambda>n. ''{\"name\": \"\"}'')) jane_doe ''jane.pdf'' fresh) =
     \<lparr>candidate_name = JStr ''Unknown'', email = ''jane.doe@example.com'',
      phone = ''+14155550100'', linkedin = ''https://linkedin.com/in/janedoe''\<rparr>"
  by code_simp+

lemma cached_inherited:
  assumes "k \<in> set Object_prototype" and "nameCache st k = None"
  shows "cached st k = Some (JBuiltin k)"
  using assms by (simp add: cached_def nameCache_get_def)

text \<open>
  C6 fails for a resume uploaded under the name of a member of \<^verbatim>\<open>Object.prototype\<close>,
  such as \<^verbatim>\<open>constructor\<close>. On a server that has cached nothing, the read
  \<^verbatim>\<open>nameCache[cacheKey]\<close> finds the inherited member, the guard takes it for a cached
  name, and \<open>extractEntities\<close> returns it as the candidate name, whatever the text and the
  provider: a function, which is neither a name nor the sentinel \<^verbatim>\<open>Unknown\<close>. No request
  is sent and the fallback is not consulted. The batch endpoint puts the same value into
  the entry of that resume; the JSON text of the response omits a property whose value is
  a function, so the entry is sent without a candidate name.
\<close>

theorem inherited_member_as_candidate_name:
  "candidate_name (fst (extractEntities env txt ''constructor'' fresh)) = JBuiltin ''constructor'' \<and>
   snd (extractEntities env txt ''constructor'' fresh) = fresh \<and>
   map (\<lambda>r. (resume_name r, candidate_name r))
     (ranked_results (body (fst (batch_match example_batch_env
        \<lparr>resumes = [example_upload ''constructor'' ''Ann''],
         jd = Some (example_upload ''jd.pdf'' ''job'')\<rparr> fresh)))) =
     [(''constructor'', JBuiltin ''constructor'')]"
proof -
  have "cached fresh ''constructor'' = Some (JBuiltin ''constructor'')"
    by (rule cached_inherited) (simp_all add: Object_prototype_def fresh_def)
  then have n: "extractNameWithLLM env txt ''constructor'' fresh = (JBuiltin ''constructor'', fresh)"
    by (simp add: extractNameWithLLM_def)
  have 1: "candidate_name (fst (extractEntities env txt ''constructor'' fresh)) = JBuiltin ''constructor''"
    unfolding extractEntities_def by (simp add: n Let_def)
  have 2: "snd (extractEntities env txt ''constructor'' fresh) = fresh"
    unfolding extractEntities_def by (simp add: n Let_def)
  have 3: "map (\<lambda>r. (resume_name r, candidate_name r))
     (ranked_results (body (fst (batch_match example_batch_env
        \<lparr>resumes = [example_upload ''constructor'' ''Ann''],
         jd = Some (example_upload ''jd.pdf'' ''job'')\<rparr> fresh)))) =
     [(''constructor'', JBuiltin ''constructor'')]"
    by code_simp
  show ?thesis by (intro conjI 1 2 3)
qed

subsection \<open>The name cache\<close>

lemma extractNameWithLLM_hit:
  "cached st k = Some v \<Longrightarrow> extractNameWithLLM env txt k st = (v, st)"
  by (simp add: extractNameWithLLM_def)

lemma extractNameWithLLM_miss:
  assumes "cached st k = None" and "extractNameWithLLM env txt k st = (name, st1)"
  shows "log st1 = log st @ [Fetch (NameRequest (take 800 txt))] \<and>
         nameCache st1 = (if truthy name then (nameCache st)(k \<mapsto> name) else nameCache st)"
proof (cases "name_of_reply env (fetch env (length (log st)))")
  case (Inl e)
  with assms show ?thesis
    by (simp add: extractNameWithLLM_def rateLimitedFetch_def) auto
next
  case (Inr n)
  with assms show ?thesis
    by (cases "truthy n") (simp add: extractNameWithLLM_def rateLimitedFetch_def; auto)+
qed

lemma cached_after_extractNameWithLLM:
  assumes "extractNameWithLLM env txt k st = (name, st1)" and "cached st k2 = Some v"
  shows "cached st1 k2 = Some v"
proof (cases "cached st k")
  case (Some w)
  with assms show ?thesis by (simp add: extractNameWithLLM_hit)
next
  case None
  from extractNameWithLLM_miss [OF None assms(1)]
  have nc: "nameCache st1 = (if truthy name then (nameCache st)(k \<mapsto> name) else nameCache st)"
    by simp
  from None assms(2) have "k2 \<noteq> k" by auto
  with nc have "nameCache st1 k2 = nameCache st k2" by simp
  then have "nameCache_get st1 k2 = nameCache_get st k2" by (simp add: nameCache_get_def)
  with assms(2) show ?thesis by (simp add: cached_def split: if_splits)
qed

lemma nameCache_scoreResumeWithLLM:
  "nameCache (snd (scoreResumeWithLLM env r j st)) = nameCache st"
  by (simp add: scoreResumeWithLLM_def rateLimitedFetch_def Let_def)

lemma snd_extractEntities:
  "snd (extractEntities env txt k st) = snd (extractNameWithLLM env txt k st)"
proof -
  obtain name0 st' where n: "extractNameWithLLM env txt k st = (name0, st')"
    by (cases "extractNameWithLLM env txt k st")
  then show ?thesis unfolding extractEntities_def by (simp add: Let_def)
qed

lemma snd_process_resume:
  assumes "pdfParse env (buffer f) = Inr raw"
  shows "snd (process_resume env jdText f st) =
           snd (scoreResumeWithLLM env (truncate_text raw) jdText
                  (snd (extractEntities env (truncate_text raw) (originalname f)
                         (st\<lparr>log := log st @ [PdfParse (buffer f)]\<rparr>))))"
proof -
  let ?st1 = "st\<lparr>log := log st @ [PdfParse (buffer f)]\<rparr>"
  obtain ents st2 where e: "extractEntities env (truncate_text raw) (originalname f) ?st1 = (ents, st2)"
    by (cases "extractEntities env (truncate_text raw) (originalname f) ?st1")
  obtain r st3 where r: "scoreResumeWithLLM env (truncate_text raw) jdText st2 = (r, st3)"
    by (cases "scoreResumeWithLLM env (truncate_text raw) jdText st2")
  show ?thesis
    unfolding process_resume_def parse_pdf_def using assms e r
    by (cases r) simp_all
qed

lemma cached_after_process_resume:
  assumes "cached st k = Some v"
  shows "cached (snd (process_resume env jdText f st)) k = Some v"
proof (cases "pdfParse env (buffer f)")
  case (Inl e)
  then have "nameCache (snd (process_resume env jdText f st)) = nameCache st"
    by (simp add: process_resume_def parse_pdf_def)
  with assms show ?thesis by (simp add: cached_def nameCache_get_def split: if_splits)
next
  case (Inr raw)
  let ?st1 = "st\<lparr>log := log st @ [PdfParse (buffer f)]\<rparr>"
  let ?n = "extractNameWithLLM env (truncate_text raw) (originalname f) ?st1"
  have "cached ?st1 k = Some v" using assms by (simp add: cached_def nameCache_get_def split: if_splits)
  then have "cached (snd ?n) k = Some v"
    by (rule cached_after_extractNameWithLLM [OF prod.collapse [symmetric]])
  moreover have "nameCache (snd (process_resume env jdText f st)) = nameCache (snd ?n)"
    by (simp add: snd_process_resume [OF Inr] nameCache_scoreResumeWithLLM snd_extractEntities)
  ultimately show ?thesis by (simp add: cached_def nameCache_get_def split: if_splits)
qed

lemma cached_after_process_all:
  "cached st k = Some v \<Longrightarrow> cached (snd (process_all env jdText fs acc st)) k = Some v"
proof (induction fs arbitrary: acc st)
  case Nil
  then show ?case by simp
next
  case (Cons f fs)
  obtain r st1 where r: "process_resume env jdText f st = (r, st1)"
    by (cases "process_resume env jdText f st")
  with cached_after_process_resume [OF Cons.prems, of env jdText f]
  have "cached st1 k = Some v" by simp
  from Cons.IH [OF this] r show ?case by simp
qed

lemma cached_after_batch_match_handler:
  assumes "cached st k = Some v"
  shows "cached (snd (batch_match_handler env req st)) k = Some v"
proof -
  have log: "cached (st\<lparr>log := l\<rparr>) k = Some v" for l
    using assms by (simp add: cached_def nameCache_get_def split: if_splits)
  show ?thesis
  proof (cases "jd req")
    case None
    with assms show ?thesis by (simp add: batch_match_handler_def)
  next
    case (Some jdFile)
    show ?thesis
    proof (cases "resumes req = []")
      case True
      with Some assms show ?thesis by (simp add: batch_match_handler_def)
    next
      case False
      show ?thesis
      proof (cases "pdfParse env (buffer jdFile)")
        case (Inl e)
        with Some False log show ?thesis by (simp add: batch_match_handler_def parse_pdf_def)
      next
        case (Inr raw)
        let ?st1 = "st\<lparr>log := log st @ [PdfParse (buffer jdFile)]\<rparr>"
        obtain rs st2 where p: "process_all env (truncate_text raw) (resumes req) [] ?st1 = (rs, st2)"
          by (cases "process_all env (truncate_text raw) (resumes req) [] ?st1")
        from cached_after_process_all [OF log [of "log st @ [PdfParse (buffer jdFile)]"],
            of env "truncate_text raw" "resumes req" "[]"] p
        have "cached st2 k = Some v" by simp
        with Some False Inr p show ?thesis
          by (simp add: batch_match_handler_def parse_pdf_def Let_def)
      qed
    qed
  qed
qed

lemma cached_after_batch_match:
  assumes "cached st k = Some v"
  shows "cached (snd (batch_match env req st)) k = Some v"
  using assms cached_after_batch_match_handler [OF assms, of env req]
  by (simp add: batch_match_def upload_fields_def)

lemma name_of_reply_parsed:
  assumes "r = Inr response" and "ok response" and "json response = Inr data"
    and "response_content (PROVIDER env) data = Inr (JStr content)"
    and "regex_exec json_regex content = Some (i, m, caps)"
    and "JSON_parse env m = Inr result"
  shows "name_of_reply env r =
           Inr (if own_prop result ''name'' \<noteq> JStr ''Unknown'' then own_prop result ''name'' else JNull)"
  using assms by (simp add: name_of_reply_def tbind_def)

lemma match_receiver_Inr: "match_receiver c = Inr t \<Longrightarrow> c = JStr t"
  by (cases c) simp_all

lemma name_of_reply_truthy:
  assumes "name_of_reply env r = Inr name" and "truthy name"
  shows "\<exists>response data content i m caps result.
           r = Inr response \<and> ok response \<and> json response = Inr data \<and>
           response_content (PROVIDER env) data = Inr (JStr content) \<and>
           regex_exec json_regex content = Some (i, m, caps) \<and>
           JSON_parse env m = Inr result \<and>
           name = own_prop result ''name'' \<and> name \<noteq> JStr ''Unknown''"
proof (cases r)
  case (Inl e)
  with assms show ?thesis by (simp add: name_of_reply_def tbind_def)
next
  case r: (Inr response)
  show ?thesis
  proof (cases "ok response")
    case False
    with assms r show ?thesis
      by (cases "json response") (auto simp: name_of_reply_def tbind_def)
  next
    case ok: True
    from assms r ok obtain data where data: "json response = Inr data"
      by (cases "json response") (auto simp: name_of_reply_def tbind_def)
    from assms r ok data obtain c where c: "response_content (PROVIDER env) data = Inr c"
      by (cases "response_content (PROVIDER env) data") (auto simp: name_of_reply_def tbind_def)
    from assms r ok data c obtain content where t: "match_receiver c = Inr content"
      by (cases "match_receiver c") (auto simp: name_of_reply_def tbind_def)
    then have cs: "c = JStr content" by (rule match_receiver_Inr)
    from assms r ok data c t obtain i m caps
      where x: "regex_exec json_regex content = Some (i, m, caps)"
      by (cases "regex_exec json_regex content") (auto simp: name_of_reply_def tbind_def)
    from assms r ok data c t x obtain result where p: "JSON_parse env m = Inr result"
      by (cases "JSON_parse env m") (auto simp: name_of_reply_def tbind_def)
    from assms r ok data c t x p
    have "name = own_prop result ''name'' \<and> name \<noteq> JStr ''Unknown''"
      by (auto simp: name_of_reply_def tbind_def split: if_splits)
    with r ok data c cs x p show ?thesis by blast
  qed
qed

lemma extractNameWithLLM_miss_reply:
  assumes "cached st k = None" and "extractNameWithLLM env txt k st = (name, st1)"
  shows "(\<forall>e. name_of_reply env (fetch env (length (log st))) = Inl e \<longrightarrow> name = JNull) \<and>
         (\<forall>n. name_of_reply env (fetch env (length (log st))) = Inr n \<longrightarrow> name = n)"
  using assms
  by (auto simp: extractNameWithLLM_def rateLimitedFetch_def split: sum.splits)

text \<open>
  C7. Take a call of the model-based name extraction for a resume name \<open>k\<close>. If the name
  was not cached and the call returned a name (a truthy value), then the call made one
  request, the name is the \<open>name\<close> of the JSON object in the provider's reply and is not
  \<^verbatim>\<open>Unknown\<close>, the call wrote it into the cache under \<open>k\<close>, and a second call for \<open>k\<close>,
  whatever the text and the provider's behaviour, at once or after any batch request
  served in between, returns that name and leaves the state, hence the log of external
  calls, as it is. The cache is written in no other case: a call that returns no name
  leaves the cache as it was, and that is the outcome when the request fails, when the
  reply has no success status, and when the name in the reply is \<^verbatim>\<open>Unknown\<close>; a call that
  hits the cache leaves the whole state as it was; the fallback of \<open>extractEntities\<close> writes
  nothing; and no call removes or changes an entry.
\<close>

theorem name_cache:
  assumes "extractNameWithLLM env txt k st = (name, st1)"
  shows "(cached st k = None \<and> truthy name \<longrightarrow>
            log st1 = log st @ [Fetch (NameRequest (take 800 txt))] \<and>
            nameCache st1 = (nameCache st)(k \<mapsto> name) \<and>
            (\<forall>env2 txt2. extractNameWithLLM env2 txt2 k st1 = (name, st1)) \<and>
            (\<forall>env2 txt2 env3 req.
                extractNameWithLLM env2 txt2 k (snd (batch_match env3 req st1)) =
                  (name, snd (batch_match env3 req st1)))) \<and>
         (\<not> truthy name \<longrightarrow> nameCache st1 = nameCache st) \<and>
         (\<forall>v. cached st k = Some v \<longrightarrow> name = v \<and> st1 = st) \<and>
         nameCache (snd (extractEntities env txt k st)) = nameCache st1 \<and>
         (\<forall>k2 v. cached st k2 = Some v \<longrightarrow> cached st1 k2 = Some v) \<and>
         (cached st k = None \<and> truthy name \<longrightarrow>
            (\<exists>response data content i m caps result.
                fetch env (length (log st)) = Inr response \<and> ok response \<and>
                json response = Inr data \<and>
                response_content (PROVIDER env) data = Inr (JStr content) \<and>
                regex_exec json_regex content = Some (i, m, caps) \<and>
                JSON_parse env m = Inr result \<and>
                name = own_prop result ''name'' \<and> name \<noteq> JStr ''Unknown'')) \<and>
         (\<forall>response data content i m caps result.
            cached st k = None \<and>
            fetch env (length (log st)) = Inr response \<and> ok response \<and>
            json response = Inr data \<and>
            response_content (PROVIDER env) data = Inr (JStr content) \<and>
            regex_exec json_regex content = Some (i, m, caps) \<and>
            JSON_parse env m = Inr result \<longrightarrow>
              (own_prop result ''name'' = JStr ''Unknown'' \<longrightarrow>
                 name = JNull \<and> nameCache st1 = nameCache st) \<and>
              (own_prop result ''name'' \<noteq> JStr ''Unknown'' \<longrightarrow> name = own_prop result ''name'')) \<and>
         (\<forall>e. cached st k = None \<and> fetch env (length (log st)) = Inl e \<longrightarrow>
            name = JNull \<and> nameCache st1 = nameCache st) \<and>
         (\<forall>response. cached st k = None \<and> fetch env (length (log st)) = Inr response \<and>
            \<not> ok response \<longrightarrow> name = JNull \<and> nameCache st1 = nameCache st)"
proof -
  let ?reply = "name_of_reply env (fetch env (length (log st)))"
  have success: "log st1 = log st @ [Fetch (NameRequest (take 800 txt))] \<and>
            nameCache st1 = (nameCache st)(k \<mapsto> name) \<and>
            (\<forall>env2 txt2. extractNameWithLLM env2 txt2 k st1 = (name, st1)) \<and>
            (\<forall>env2 txt2 env3 req.
                extractNameWithLLM env2 txt2 k (snd (batch_match env3 req st1)) =
                  (name, snd (batch_match env3 req st1)))"
    if miss: "cached st k = None" and name: "truthy name"
  proof -
    from extractNameWithLLM_miss [OF miss assms] name
    have l: "log st1 = log st @ [Fetch (NameRequest (take 800 txt))]"
      and c: "nameCache st1 = (nameCache st)(k \<mapsto> name)" by simp_all
    from c name have hit: "cached st1 k = Some name" by (simp add: cached_def nameCache_get_def split: if_splits)
    from hit have "extractNameWithLLM env2 txt2 k st1 = (name, st1)" for env2 txt2
      by (rule extractNameWithLLM_hit)
    moreover have "extractNameWithLLM env2 txt2 k (snd (batch_match env3 req st1)) =
                  (name, snd (batch_match env3 req st1))" for env2 txt2 env3 req
      by (rule extractNameWithLLM_hit) (rule cached_after_batch_match [OF hit])
    ultimately show ?thesis using l c by blast
  qed
  have failure: "nameCache st1 = nameCache st" if "\<not> truthy name"
  proof (cases "cached st k")
    case None
    from extractNameWithLLM_miss [OF None assms] that show ?thesis by simp
  next
    case (Some v)
    with assms show ?thesis by (simp add: extractNameWithLLM_hit)
  qed
  have hit: "name = v \<and> st1 = st" if "cached st k = Some v" for v
    using that assms by (simp add: extractNameWithLLM_hit)
  have ents: "nameCache (snd (extractEntities env txt k st)) = nameCache st1"
    using assms by (simp add: snd_extractEntities)
  have keep: "cached st1 k2 = Some v" if "cached st k2 = Some v" for k2 v
    using cached_after_extractNameWithLLM [OF assms that] .
  have from_reply: "\<exists>response data content i m caps result.
                fetch env (length (log st)) = Inr response \<and> ok response \<and>
                json response = Inr data \<and>
                response_content (PROVIDER env) data = Inr (JStr content) \<and>
                regex_exec json_regex content = Some (i, m, caps) \<and>
                JSON_parse env m = Inr result \<and>
                name = own_prop result ''name'' \<and> name \<noteq> JStr ''Unknown''"
    if miss: "cached st k = None" and name: "truthy name"
  proof (cases ?reply)
    case (Inl e)
    with extractNameWithLLM_miss_reply [OF miss assms] name show ?thesis by simp
  next
    case (Inr n)
    with extractNameWithLLM_miss_reply [OF miss assms] have "n = name" by simp
    with Inr name show ?thesis by (intro name_of_reply_truthy) simp_all
  qed
  have parsed: "(own_prop result ''name'' = JStr ''Unknown'' \<longrightarrow>
                   name = JNull \<and> nameCache st1 = nameCache st) \<and>
                (own_prop result ''name'' \<noteq> JStr ''Unknown'' \<longrightarrow> name = own_prop result ''name'')"
    if "cached st k = None \<and>
        fetch env (length (log st)) = Inr response \<and> ok response \<and>
        json response = Inr data \<and>
        response_content (PROVIDER env) data = Inr (JStr content) \<and>
        regex_exec json_regex content = Some (i, m, caps) \<and>
        JSON_parse env m = Inr result"
    for response data content i m caps result
  proof -
    from that have miss: "cached st k = None" and f: "fetch env (length (log st)) = Inr response"
      and o: "ok response" and d: "json response = Inr data"
      and c: "response_content (PROVIDER env) data = Inr (JStr content)"
      and x: "regex_exec json_regex content = Some (i, m, caps)"
      and p: "JSON_parse env m = Inr result"
      by simp_all
    have "?reply =
        Inr (if own_prop result ''name'' \<noteq> JStr ''Unknown'' then own_prop result ''name'' else JNull)"
      by (rule name_of_reply_parsed [OF f o d c x p])
    with extractNameWithLLM_miss_reply [OF miss assms]
    have n: "name = (if own_prop result ''name'' \<noteq> JStr ''Unknown'' then own_prop result ''name'' else JNull)"
      by simp
    show ?thesis
    proof (cases "own_prop result ''name'' = JStr ''Unknown''")
      case True
      with n have "name = JNull" by simp
      with failure True show ?thesis by simp
    next
      case False
      with n show ?thesis by simp
    qed
  qed
  have rejected: "name = JNull \<and> nameCache st1 = nameCache st"
    if "cached st k = None \<and> fetch env (length (log st)) = Inl e" for e
  proof -
    from that have miss: "cached st k = None" by simp
    from that have "?reply = Inl e" by (simp add: name_of_reply_def tbind_def)
    with extractNameWithLLM_miss_reply [OF miss assms] have "name = JNull" by simp
    with failure show ?thesis by simp
  qed
  have not_ok: "name = JNull \<and> nameCache st1 = nameCache st"
    if "cached st k = None \<and> fetch env (length (log st)) = Inr response \<and> \<not> ok response"
    for response
  proof -
    from that have miss: "cached st k = None" by simp
    from that have "?reply = Inr JNull \<or> (\<exists>e. ?reply = Inl e)"
      by (cases "json response") (simp_all add: name_of_reply_def tbind_def)
    with extractNameWithLLM_miss_reply [OF miss assms] have "name = JNull" by auto
    with failure show ?thesis by simp
  qed
  show ?thesis
  proof (intro conjI)
    show "cached st k = None \<and> truthy name \<longrightarrow>
            log st1 = log st @ [Fetch (NameRequest (take 800 txt))] \<and>
            nameCache st1 = (nameCache st)(k \<mapsto> name) \<and>
            (\<forall>env2 txt2. extractNameWithLLM env2 txt2 k st1 = (name, st1)) \<and>
            (\<forall>env2 txt2 env3 req.
                extractNameWithLLM env2 txt2 k (snd (batch_match env3 req st1)) =
                  (name, snd (batch_match env3 req st1)))"
      using success by (intro impI) (elim conjE)
    show "\<not> truthy name \<longrightarrow> nameCache st1 = nameCache st" using failure by (intro impI)
    show "\<forall>v. cached st k = Some v \<longrightarrow> name = v \<and> st1 = st" using hit by (intro allI impI)
    show "nameCache (snd (extractEntities env txt k st)) = nameCache st1" by (rule ents)
    show "\<forall>k2 v. cached st k2 = Some v \<longrightarrow> cached st1 k2 = Some v" using keep by (intro allI impI)
    show "cached st k = None \<and> truthy name \<longrightarrow>
            (\<exists>response data content i m caps result.
                fetch env (length (log st)) = Inr response \<and> ok response \<and>
                json response = Inr data \<and>
                response_content (PROVIDER env) data = Inr (JStr content) \<and>
                regex_exec json_regex content = Some (i, m, caps) \<and>
                JSON_parse env m = Inr result \<and>
                name = own_prop result ''name'' \<and> name \<noteq> JStr ''Unknown'')"
      using from_reply by (intro impI) (elim conjE)
    show "\<forall>response data content i m caps result.
            cached st k = None \<and>
            fetch env (length (log st)) = Inr response \<and> ok response \<and>
            json response = Inr data \<and>
            response_content (PROVIDER env) data = Inr (JStr content) \<and>
            regex_exec json_regex content = Some (i, m, caps) \<and>
            JSON_parse env m = Inr result \<longrightarrow>
              (own_prop result ''name'' = JStr ''Unknown'' \<longrightarrow>
                 name = JNull \<and> nameCache st1 = nameCache st) \<and>
              (own_prop result ''name'' \<noteq> JStr ''Unknown'' \<longrightarrow> name = own_prop result ''name'')"
      using parsed by (intro allI impI)
    show "\<forall>e. cached st k = None \<and> fetch env (length (log st)) = Inl e \<longrightarrow>
            name = JNull \<and> nameCache st1 = nameCache st"
      using rejected by (intro allI impI)
    show "\<forall>response. cached st k = None \<and> fetch env (length (log st)) = Inr response \<and>
            \<not> ok response \<longrightarrow> name = JNull \<and> nameCache st1 = nameCache st"
      using not_ok by (intro allI impI)
  qed
qed

theorem name_cache_witness:
  "cached fresh ''a.pdf'' = None \<and>
   fst (extractNameWithLLM (example_env (\<lambda>n. ''{\"name\": \"Ada Lovelace\"}'')) ''Ada'' ''a.pdf'' fresh) =
     JStr ''Ada Lovelace'' \<and>
   truthy (JStr ''Ada Lovelace'') \<and>
   log (snd (extractNameWithLLM (example_env (\<lambda>n. ''{\"name\": \"Ada Lovelace\"}'')) ''Ada'' ''a.pdf'' fresh)) =
     [Fetch (NameRequest ''Ada'')] \<and>
   extractNameWithLLM (example_env (\<lambda>n. ''{}'')) ''Someone else'' ''a.pdf''
       (snd (extractNameWithLLM (example_env (\<lambda>n. ''{\"name\": \"Ada Lovelace\"}'')) ''Ada'' ''a.pdf'' fresh)) =
     (JStr ''Ada Lovelace'',
      snd (extractNameWithLLM (example_env (\<lambda>n. ''{\"name\": \"Ada Lovelace\"}'')) ''Ada'' ''a.pdf'' fresh)) \<and>
   fst (extractNameWithLLM (example_env (\<lambda>n. ''{\"name\": \"Unknown\"}'')) ''Ada'' ''a.pdf'' fresh) = JNull \<and>
   cached (snd (extractNameWithLLM (example_env (\<lambda>n. ''{\"name\": \"Unknown\"}'')) ''Ada'' ''a.pdf'' fresh))
     ''a.pdf'' = None"
proof -
  let ?first = "extractNameWithLLM (example_env (\<lambda>n. ''{\"name\": \"Ada Lovelace\"}'')) ''Ada'' ''a.pdf'' fresh"
  let ?unknown = "extractNameWithLLM (example_env (\<lambda>n. ''{\"name\": \"Unknown\"}'')) ''Ada'' ''a.pdf'' fresh"
  have miss: "cached fresh ''a.pdf'' = None"
    by (simp add: cached_def nameCache_get_def fresh_def Object_prototype_def)
  have name: "fst ?first = JStr ''Ada Lovelace''" by code_simp
  have run: "?first = (JStr ''Ada Lovelace'', snd ?first)"
    by (rule prod_eqI) (simp_all only: fst_conv snd_conv name)
  have t: "truthy (JStr ''Ada Lovelace'')" by simp
  note c = name_cache [OF run, THEN conjunct1, rule_format, OF conjI [OF miss t]]
  from c have l: "log (snd ?first) = log fresh @ [Fetch (NameRequest (take 800 ''Ada''))]"
    by (rule conjunct1)
  from c have "\<forall>env2 txt2. extractNameWithLLM env2 txt2 ''a.pdf'' (snd ?first) =
           (JStr ''Ada Lovelace'', snd ?first)"
    by (elim conjE)
  then have s: "extractNameWithLLM (example_env (\<lambda>n. ''{}'')) ''Someone else'' ''a.pdf'' (snd ?first) =
           (JStr ''Ada Lovelace'', snd ?first)"
    by (elim allE)
  from l have l': "log (snd ?first) = [Fetch (NameRequest ''Ada'')]" by (simp add: fresh_def)
  let ?E = "example_env (\<lambda>n. ''{\"name\": \"Unknown\"}'')"
  have x: "regex_exec json_regex ''{\"name\": \"Unknown\"}'' = Some (0, ''{\"name\": \"Unknown\"}'', [])"
    by code_simp
  have p: "JSON_parse ?E ''{\"name\": \"Unknown\"}'' = Inr [(''name'', JStr ''Unknown'')]"
    by code_simp
  have n: "own_prop [(''name'', JStr ''Unknown'')] ''name'' = JStr ''Unknown''"
    by (simp add: own_prop_def)
  note reply = conjI [OF miss conjI [OF example_scoring_reply(1) [unfolded example_scoring_reply(2)]
      conjI [OF ok_json(1) conjI [OF ok_json(2) conjI [OF example_scoring_reply(3) conjI [OF x p]]]]]]
  note c7 = name_cache [OF prod.collapse [symmetric], THEN conjunct2, THEN conjunct2, THEN conjunct2,
      THEN conjunct2, THEN conjunct2, THEN conjunct2, THEN conjunct1, rule_format]
  from c7 [OF reply, THEN conjunct1, rule_format, OF n]
  have u: "fst ?unknown = JNull" and "nameCache (snd ?unknown) = nameCache fresh"
    by simp_all
  with miss have u': "cached (snd ?unknown) ''a.pdf'' = None"
    by (simp add: cached_def nameCache_get_def split: if_splits)
  show ?thesis by (intro conjI miss name t l' s u u')
qed

subsection \<open>The batch endpoint\<close>

lemma insert_by_score: "insert_by by_score_desc x ys = insort_key (\<lambda>r. - match_score r) x ys"
  by (induction ys) (auto simp: by_score_desc_def)

lemma Array_sort_by_score: "Array_sort by_score_desc xs = sort_key (\<lambda>r. - match_score r) xs"
  by (induction xs) (simp_all add: Array_sort_def insert_by_score)

lemma sorted_desc:
  "sorted_wrt (\<lambda>a b. match_score b \<le> match_score a) (Array_sort by_score_desc xs)"
proof -
  have "sorted (map (\<lambda>r. - match_score r) (sort_key (\<lambda>r. - match_score r) xs))"
    by (rule sorted_sort_key)
  then show ?thesis
    by (simp add: Array_sort_by_score sorted_map sorted_wrt_iff_nth_less)
qed

lemma stable_by_score:
  "filter (\<lambda>r. match_score r = k) (Array_sort by_score_desc xs) = filter (\<lambda>r. match_score r = k) xs"
  using sort_key_stable [of "\<lambda>r. - match_score r" "- k" xs]
  by (simp add: Array_sort_by_score)

lemma mset_Array_sort: "mset (Array_sort by_score_desc xs) = mset xs"
  by (simp add: Array_sort_by_score)

lemma length_Array_sort: "length (Array_sort by_score_desc xs) = length xs"
  by (simp add: Array_sort_by_score)

lemma resume_name_process_resume:
  "resume_name (fst (process_resume env jdText f st)) = originalname f"
  by (simp add: process_resume_def parse_pdf_def success_result_def failure_result_def Let_def
      split: sum.splits prod.splits)

lemma process_all_acc:
  "process_all env jdText fs acc st =
     (acc @ fst (process_all env jdText fs [] st), snd (process_all env jdText fs [] st))"
proof (induction fs arbitrary: acc st)
  case Nil
  then show ?case by simp
next
  case (Cons f fs)
  obtain r st1 where r: "process_resume env jdText f st = (r, st1)" by (cases "process_resume env jdText f st")
  from Cons [of "acc @ [r]" st1] Cons [of "[r]" st1] r show ?case by simp
qed

lemma process_all_Cons:
  "process_all env jdText (f # fs) [] st =
     (fst (process_resume env jdText f st) #
        fst (process_all env jdText fs [] (snd (process_resume env jdText f st))),
      snd (process_all env jdText fs [] (snd (process_resume env jdText f st))))"
  by (cases "process_resume env jdText f st") (simp add: process_all_acc [where acc = "[_]"])

lemma process_all_append:
  "process_all env jdText (fs @ gs) [] st =
     (fst (process_all env jdText fs [] st) @
        fst (process_all env jdText gs [] (snd (process_all env jdText fs [] st))),
      snd (process_all env jdText gs [] (snd (process_all env jdText fs [] st))))"
proof (induction fs arbitrary: st)
  case Nil
  then show ?case by simp
next
  case (Cons f fs)
  show ?case
    by (simp only: append_Cons process_all_Cons [of env jdText f] Cons fst_conv snd_conv)
qed

lemma names_process_all:
  "map resume_name (fst (process_all env jdText fs [] st)) = map originalname fs"
  by (induction fs arbitrary: st)
    (simp_all add: process_all_Cons resume_name_process_resume del: process_all.simps(2))

lemma length_process_all: "length (fst (process_all env jdText fs [] st)) = length fs"
  using names_process_all [of env jdText fs st] by (metis length_map)

lemma batch_match_accepted:
  "length (resumes req) \<le> 100 \<Longrightarrow> batch_match env req st = batch_match_handler env req st"
  by (simp add: batch_match_def upload_fields_def)

lemma batch_match_refused:
  "100 < length (resumes req) \<Longrightarrow>
     batch_match env req st = (\<lparr>status = 500, body = ErrorPage\<rparr>, st)"
  by (simp add: batch_match_def upload_fields_def)

lemma batch_match_ok:
  assumes "length (resumes req) \<le> 100"
    and "resumes req \<noteq> []" and "jd req = Some jdFile" and "pdfParse env (buffer jdFile) = Inr raw"
  shows "fst (batch_match env req st) =
           \<lparr>status = 200,
            body = Batch (length (resumes req))
                     (Array_sort by_score_desc
                        (fst (process_all env (truncate_text raw) (resumes req) []
                               (snd (parse_pdf env jdFile st)))))\<rparr>"
  using assms
  by (simp add: batch_match_accepted batch_match_handler_def parse_pdf_def length_Array_sort
      length_process_all case_prod_beta Let_def)



lemma example_run:
  "map (\<lambda>r. (resume_name r, match_score r, seniority_fit r, summary r))
     (ranked_results (body (fst (batch_match example_batch_env example_request fresh)))) =
   [(''c.pdf'', 100, JUndefined, JUndefined), (''a.pdf'', 72, JUndefined, JUndefined),
    (''d.pdf'', 72, JUndefined, JUndefined),
    (''b.pdf'', 0, JStr ''Weak'', JStr ''Error: Invalid PDF structure'')]"
  by code_simp

text \<open>
  C1, as amended. For a batch request with a non-empty list of N resume files, N at most
  the 100 the upload middleware admits, and a job-description file whose text extraction
  succeeds, the response has status 200, its \<open>total\<close> is N and \<open>ranked_results\<close> has
  exactly N entries, one per submitted resume, however many of the resumes fail.
\<close>

theorem batch_size_conserved:
  assumes "length (resumes req) \<le> 100"
    and "resumes req \<noteq> []" and "jd req = Some jdFile"
    and "pdfParse env (buffer jdFile) = Inr raw"
  shows "status (fst (batch_match env req st)) = 200 \<and>
         total (body (fst (batch_match env req st))) = length (resumes req) \<and>
         length (ranked_results (body (fst (batch_match env req st)))) = length (resumes req) \<and>
         mset (map resume_name (ranked_results (body (fst (batch_match env req st))))) =
           mset (map originalname (resumes req))"
proof -
  let ?results = "fst (process_all env (truncate_text raw) (resumes req) [] (snd (parse_pdf env jdFile st)))"
  have "mset (map resume_name (Array_sort by_score_desc ?results)) = mset (map resume_name ?results)"
    by (simp add: mset_Array_sort)
  then show ?thesis
    by (simp add: batch_match_ok [OF assms] length_Array_sort length_process_all names_process_all)
qed

theorem batch_size_conserved_witness:
  "length (resumes example_request) \<le> 100 \<and>
   resumes example_request \<noteq> [] \<and>
   jd example_request = Some (example_upload ''jd.pdf'' ''job'') \<and>
   pdfParse example_batch_env (buffer (example_upload ''jd.pdf'' ''job'')) = Inr ''job'' \<and>
   status (fst (batch_match example_batch_env example_request fresh)) = 200 \<and>
   total (body (fst (batch_match example_batch_env example_request fresh))) = 4 \<and>
   length (ranked_results (body (fst (batch_match example_batch_env example_request fresh)))) = 4 \<and>
   map match_score (ranked_results (body (fst (batch_match example_batch_env example_request fresh)))) =
     [100, 72, 72, 0] \<and>
   total (body (fst (batch_match example_batch_env
      \<lparr>resumes = replicate 100 (example_upload ''a.pdf'' ''Ann''),
       jd = Some (example_upload ''jd.pdf'' ''job'')\<rparr> fresh))) = 100"
proof -
  let ?full = "\<lparr>resumes = replicate 100 (example_upload ''a.pdf'' ''Ann''),
       jd = Some (example_upload ''jd.pdf'' ''job'')\<rparr>"
  have 1: "resumes example_request \<noteq> []" by (simp add: example_request_def)
  have 2: "jd example_request = Some (example_upload ''jd.pdf'' ''job'')"
    by (simp add: example_request_def)
  have 3: "pdfParse example_batch_env (buffer (example_upload ''jd.pdf'' ''job'')) = Inr ''job''"
    by (simp add: example_batch_env_def example_env_def example_upload_def)
  have 4: "length (resumes example_request) = 4" by (simp add: example_request_def)
  then have 0: "length (resumes example_request) \<le> 100" by simp
  have 5: "map match_score (ranked_results (body (fst (batch_match example_batch_env example_request fresh)))) =
     [100, 72, 72, 0]"
    using arg_cong [OF example_run, of "map (\<lambda>p. fst (snd p))"] by (simp add: comp_def)
  have "length (resumes ?full) \<le> 100" "resumes ?full \<noteq> []"
    "jd ?full = Some (example_upload ''jd.pdf'' ''job'')" by simp_all
  from batch_size_conserved [OF this 3, of fresh]
  have 6: "total (body (fst (batch_match example_batch_env ?full fresh))) = 100" by simp
  from batch_size_conserved [OF 0 1 2 3, of fresh] 1 2 3 4 5 6 show ?thesis by simp
qed

text \<open>
  C1 as stated fails in two ways. A request with a resume and a job-description file whose
  text cannot be extracted is answered with status 500 and an error, with no
  \<open>ranked_results\<close>: the job description is read outside the \<^verbatim>\<open>try\<close> block of the loop.
  A request with 101 resumes and a readable job description is refused by the upload
  middleware and answered with status 500, again with no \<open>ranked_results\<close>.
\<close>

theorem unreadable_jd_counterexample:
  "fst (batch_match example_batch_env
          \<lparr>resumes = [example_upload ''a.pdf'' ''Ann''],
           jd = Some (example_upload ''jd.pdf'' ''corrupt'')\<rparr> fresh) =
     \<lparr>status = 500, body = ErrorBody ''Invalid PDF structure''\<rparr> \<and>
   fst (batch_match example_batch_env
          \<lparr>resumes = replicate 101 (example_upload ''a.pdf'' ''Ann''),
           jd = Some (example_upload ''jd.pdf'' ''job'')\<rparr> fresh) =
     \<lparr>status = 500, body = ErrorPage\<rparr>"
proof -
  have "fst (batch_match example_batch_env
          \<lparr>resumes = [example_upload ''a.pdf'' ''Ann''],
           jd = Some (example_upload ''jd.pdf'' ''corrupt'')\<rparr> fresh) =
     \<lparr>status = 500, body = ErrorBody ''Invalid PDF structure''\<rparr>"
    by code_simp
  then show ?thesis by (simp add: batch_match_refused)
qed

text \<open>
  C2. When the batch endpoint answers with a result list, the list is sorted by
  \<open>match_score\<close>, highest first, and it is a stable rearrangement of the results in
  submission order: for every score, the entries with that score stand in the order their
  resumes were submitted.
\<close>

theorem ranked_results_sorted_stable:
  assumes "fst (batch_match env req st) = \<lparr>status = s, body = Batch n rs\<rparr>"
  shows "sorted_wrt (\<lambda>a b. match_score b \<le> match_score a) rs \<and>
         (\<exists>results. map resume_name results = map originalname (resumes req) \<and>
            mset rs = mset results \<and>
            (\<forall>k. filter (\<lambda>r. match_score r = k) rs = filter (\<lambda>r. match_score r = k) results))"
proof -
  from assms have le: "length (resumes req) \<le> 100"
    by (cases "length (resumes req) \<le> 100") (simp_all add: batch_match_refused)
  from assms le obtain jdFile where jd: "jd req = Some jdFile" and ne: "resumes req \<noteq> []"
    by (auto simp: batch_match_accepted batch_match_handler_def split: option.splits if_splits)
  from assms le jd ne obtain raw where raw: "pdfParse env (buffer jdFile) = Inr raw"
    by (cases "pdfParse env (buffer jdFile)")
      (auto simp: batch_match_accepted batch_match_handler_def parse_pdf_def)
  let ?results = "fst (process_all env (truncate_text raw) (resumes req) [] (snd (parse_pdf env jdFile st)))"
  from assms batch_match_ok [OF le ne jd raw, of st] have rs: "rs = Array_sort by_score_desc ?results"
    by simp
  have "map resume_name ?results = map originalname (resumes req)" by (rule names_process_all)
  moreover have "mset rs = mset ?results" by (simp add: rs mset_Array_sort)
  moreover have "\<forall>k. filter (\<lambda>r. match_score r = k) rs = filter (\<lambda>r. match_score r = k) ?results"
    by (simp add: rs stable_by_score)
  moreover have "sorted_wrt (\<lambda>a b. match_score b \<le> match_score a) rs" by (simp add: rs sorted_desc)
  ultimately show ?thesis by blast
qed

theorem ranked_results_sorted_stable_witness:
  "map (\<lambda>r. (resume_name r, match_score r))
     (ranked_results (body (fst (batch_match example_batch_env example_request fresh)))) =
     [(''c.pdf'', 100), (''a.pdf'', 72), (''d.pdf'', 72), (''b.pdf'', 0)] \<and>
   sorted_wrt (\<lambda>a b. match_score b \<le> match_score a)
     (ranked_results (body (fst (batch_match example_batch_env example_request fresh))))"
proof -
  let ?resp = "fst (batch_match example_batch_env example_request fresh)"
  have 1: "resumes example_request \<noteq> []" by (simp add: example_request_def)
  have 2: "jd example_request = Some (example_upload ''jd.pdf'' ''job'')"
    by (simp add: example_request_def)
  have 3: "pdfParse example_batch_env (buffer (example_upload ''jd.pdf'' ''job'')) = Inr ''job''"
    by (simp add: example_batch_env_def example_env_def example_upload_def)
  have 0: "length (resumes example_request) \<le> 100" by (simp add: example_request_def)
  have "?resp = \<lparr>status = 200, body = Batch (length (resumes example_request)) (ranked_results (body ?resp))\<rparr>"
    by (simp add: batch_match_ok [OF 0 1 2 3])
  from ranked_results_sorted_stable [OF this]
  have "sorted_wrt (\<lambda>a b. match_score b \<le> match_score a) (ranked_results (body ?resp))" by blast
  moreover have "map (\<lambda>r. (resume_name r, match_score r)) (ranked_results (body ?resp)) =
     [(''c.pdf'', 100), (''a.pdf'', 72), (''d.pdf'', 72), (''b.pdf'', 0)]"
    using arg_cong [OF example_run, of "map (\<lambda>p. (fst p, fst (snd p)))"] by (simp add: comp_def)
  ultimately show ?thesis by simp
qed

text \<open>
  C9, as amended. A batch request that the upload middleware admits (at most 100 resume
  files) and whose resume list is empty or whose job-description file is missing is
  answered with status 400 and an error body, no \<open>ranked_results\<close>, and the state is left
  as it was: no document is parsed and no request is sent.
\<close>

theorem batch_match_missing_input:
  assumes "length (resumes req) \<le> 100" and "resumes req = [] \<or> jd req = None"
  shows "batch_match env req st =
           (\<lparr>status = 400, body = ErrorBody ''Missing resumes or JD file''\<rparr>, st)"
  using assms by (auto simp: batch_match_accepted batch_match_handler_def split: option.splits)

theorem batch_match_missing_input_witness:
  "batch_match example_batch_env \<lparr>resumes = [example_upload ''a.pdf'' ''Ann''], jd = None\<rparr> fresh =
     (\<lparr>status = 400, body = ErrorBody ''Missing resumes or JD file''\<rparr>, fresh) \<and>
   batch_match example_batch_env \<lparr>resumes = [], jd = Some (example_upload ''jd.pdf'' ''job'')\<rparr> fresh =
     (\<lparr>status = 400, body = ErrorBody ''Missing resumes or JD file''\<rparr>, fresh) \<and>
   batch_match example_batch_env
       \<lparr>resumes = replicate 100 (example_upload ''a.pdf'' ''Ann''), jd = None\<rparr> fresh =
     (\<lparr>status = 400, body = ErrorBody ''Missing resumes or JD file''\<rparr>, fresh) \<and>
   log fresh = []"
  using batch_match_missing_input
      [of "\<lparr>resumes = [example_upload ''a.pdf'' ''Ann''], jd = None\<rparr>" example_batch_env fresh]
    batch_match_missing_input
      [of "\<lparr>resumes = replicate 100 (example_upload ''a.pdf'' ''Ann''), jd = None\<rparr>"
          example_batch_env fresh]
    batch_match_missing_input
      [of "\<lparr>resumes = [], jd = Some (example_upload ''jd.pdf'' ''job'')\<rparr>" example_batch_env fresh]
  by (simp add: fresh_def)

text \<open>
  C9 as stated fails: a request with 101 resume files and no job-description file is
  refused by the upload middleware before the handler runs, and the response has status
  500, not 400.
\<close>

theorem too_many_resumes_counterexample:
  "jd \<lparr>resumes = replicate 101 (example_upload ''a.pdf'' ''Ann''), jd = None\<rparr> = None \<and>
   fst (batch_match example_batch_env
          \<lparr>resumes = replicate 101 (example_upload ''a.pdf'' ''Ann''), jd = None\<rparr> fresh) =
     \<lparr>status = 500, body = ErrorPage\<rparr>"
  by (simp add: batch_match_def upload_fields_def)

lemma process_resume_failure:
  assumes "pdfParse env (buffer f) = Inl err \<or>
           (\<exists>raw. pdfParse env (buffer f) = Inr raw \<and>
              fst (scoreResumeWithLLM env (truncate_text raw) jdText
                     (snd (extractEntities env (truncate_text raw) (originalname f)
                            (snd (parse_pdf env f st))))) = Inl err)"
  shows "fst (process_resume env jdText f st) = failure_result f err"
  using assms
  by (auto simp: process_resume_def parse_pdf_def Let_def case_prod_beta split: sum.splits)

text \<open>
  C4. In a batch of at most 100 resumes (the number the upload middleware admits) whose
  job description was read, take any resume \<open>f\<close>, with the resumes
  \<open>before\<close> it and \<open>after\<close> it. If the text extraction of \<open>f\<close> fails, or its scoring call
  fails (entity extraction has no failing outcome), the loop neither stops nor skips: the
  response has status 200 and ranks the results of the resumes before \<open>f\<close>, one failure
  entry for \<open>f\<close>, and the results of the resumes after \<open>f\<close>, each processed as usual from
  the state the loop has reached. The failure entry has score 0, fit \<^verbatim>\<open>Weak\<close>, and the text
  \<^verbatim>\<open>Error: \<close> followed by the error's message as its summary.
\<close>

theorem resume_failure_isolated:
  assumes "length (resumes req) \<le> 100"
    and "jd req = Some jdFile" and "pdfParse env (buffer jdFile) = Inr rawjd"
    and "resumes req = before @ f # after"
    and "process_all env (truncate_text rawjd) before [] (snd (parse_pdf env jdFile st)) = (rs1, st1)"
    and "pdfParse env (buffer f) = Inl err \<or>
         (\<exists>raw. pdfParse env (buffer f) = Inr raw \<and>
            fst (scoreResumeWithLLM env (truncate_text raw) (truncate_text rawjd)
                   (snd (extractEntities env (truncate_text raw) (originalname f)
                          (snd (parse_pdf env f st1))))) = Inl err)"
    and "process_all env (truncate_text rawjd) after []
           (snd (process_resume env (truncate_text rawjd) f st1)) = (rs2, st3)"
  shows "fst (batch_match env req st) =
           \<lparr>status = 200,
            body = Batch (length (resumes req))
                     (Array_sort by_score_desc (rs1 @ failure_result f err # rs2))\<rparr> \<and>
         resume_name (failure_result f err) = originalname f \<and>
         match_score (failure_result f err) = 0 \<and>
         seniority_fit (failure_result f err) = JStr ''Weak'' \<and>
         summary (failure_result f err) = JStr (''Error: '' @ message err)"
proof -
  let ?jd = "truncate_text rawjd"
  let ?st0 = "snd (parse_pdf env jdFile st)"
  have ne: "resumes req \<noteq> []" using assms(4) by simp
  have f: "fst (process_resume env ?jd f st1) = failure_result f err"
    by (rule process_resume_failure) (rule assms(6))
  have "fst (process_all env ?jd (before @ f # after) [] ?st0) = rs1 @ failure_result f err # rs2"
    using assms(5,7) f by (simp add: process_all_append process_all_Cons del: process_all.simps(2))
  then show ?thesis
    using batch_match_ok [OF assms(1) ne assms(2,3), of st] assms(4) by (simp add: failure_result_def)
qed

theorem resume_failure_isolated_witness:
  "length (resumes example_request) \<le> 100 \<and>
   pdfParse example_batch_env (buffer (example_upload ''b.pdf'' ''corrupt'')) =
     Inl (Error ''Invalid PDF structure'') \<and>
   resumes example_request =
     [example_upload ''a.pdf'' ''Ann''] @ example_upload ''b.pdf'' ''corrupt'' #
     [example_upload ''c.pdf'' ''Cy'', example_upload ''d.pdf'' ''Di''] \<and>
   status (fst (batch_match example_batch_env example_request fresh)) = 200 \<and>
   failure_result (example_upload ''b.pdf'' ''corrupt'') (Error ''Invalid PDF structure'')
     \<in> set (ranked_results (body (fst (batch_match example_batch_env example_request fresh)))) \<and>
   map (\<lambda>r. (resume_name r, match_score r, seniority_fit r, summary r))
     (ranked_results (body (fst (batch_match example_batch_env example_request fresh)))) =
   [(''c.pdf'', 100, JUndefined, JUndefined), (''a.pdf'', 72, JUndefined, JUndefined),
    (''d.pdf'', 72, JUndefined, JUndefined),
    (''b.pdf'', 0, JStr ''Weak'', JStr ''Error: Invalid PDF structure'')]"
proof -
  let ?E = example_batch_env
  let ?J = "example_upload ''jd.pdf'' ''job''"
  let ?b = "example_upload ''b.pdf'' ''corrupt''"
  let ?err = "Error ''Invalid PDF structure''"
  let ?st0 = "snd (parse_pdf ?E ?J fresh)"
  let ?p1 = "process_all ?E (truncate_text ''job'') [example_upload ''a.pdf'' ''Ann''] [] ?st0"
  let ?p2 = "process_all ?E (truncate_text ''job'')
               [example_upload ''c.pdf'' ''Cy'', example_upload ''d.pdf'' ''Di''] []
               (snd (process_resume ?E (truncate_text ''job'') ?b (snd ?p1)))"
  have 0: "length (resumes example_request) \<le> 100" by (simp add: example_request_def)
  have 1: "jd example_request = Some ?J" by (simp add: example_request_def)
  have 2: "pdfParse ?E (buffer ?J) = Inr ''job''"
    by (simp add: example_batch_env_def example_env_def example_upload_def)
  have 3: "resumes example_request =
     [example_upload ''a.pdf'' ''Ann''] @ ?b # [example_upload ''c.pdf'' ''Cy'', example_upload ''d.pdf'' ''Di'']"
    by (simp add: example_request_def)
  have 4: "?p1 = (fst ?p1, snd ?p1)" by simp
  have 5: "pdfParse ?E (buffer ?b) = Inl ?err"
    by (simp add: example_batch_env_def example_env_def example_upload_def)
  have 6: "?p2 = (fst ?p2, snd ?p2)" by simp
  from resume_failure_isolated [OF 0 1 2 3 4 disjI1 [OF 5] 6]
  have resp: "fst (batch_match ?E example_request fresh) =
      \<lparr>status = 200, body = Batch (length (resumes example_request))
         (Array_sort by_score_desc (fst ?p1 @ failure_result ?b ?err # fst ?p2))\<rparr>"
    by blast
  have "failure_result ?b ?err \<in># mset (Array_sort by_score_desc (fst ?p1 @ failure_result ?b ?err # fst ?p2))"
    by (simp add: mset_Array_sort)
  then have "failure_result ?b ?err \<in> set (ranked_results (body (fst (batch_match ?E example_request fresh))))"
    by (simp add: resp)
  with resp 0 3 5 example_run show ?thesis by simp
qed

subsection \<open>The request queue\<close>









end
